theory Spec2Isabelle
  imports Complex_Main
begin

section \<open>Numbers\<close>

text \<open>
  The script computes with JavaScript numbers, the doubles of IEEE 754 (binary64). The
  particles (canvas confetti, background confetti) are modelled over the real numbers:
  there the rounding of doubles, infinities and NaN are outside the model. The three
  numeric routines \<^verbatim>\<open>getRandomInRange\<close>, \<^verbatim>\<open>interpolation\<close> and \<^verbatim>\<open>createPoisson\<close> are modelled
  a second time in binary64, under names that end in \<open>_b64\<close>: there every arithmetic
  operation is followed by the rounding \<open>fl\<close> of the next section, and what is proved
  of their values is proved of these. Every call of \<^verbatim>\<open>Math.random()\<close> is an explicit
  argument (a draw \<open>u\<close>, which the browser takes from \<open>[0, 1)\<close>), every reading of the
  clock or of the window is an argument too.
\<close>

section \<open>Binary64 rounding\<close>

text \<open>
  \<open>rne\<close> rounds a real number to the nearest integer, a tie to the even one. \<open>expo x\<close> is
  the binary exponent of \<open>x\<close>, not below that of the least normal number, and
  \<open>quantum x\<close> the distance of neighbouring doubles at \<open>x\<close> (53 significant bits).
  \<open>fl x\<close> is the double nearest to \<open>x\<close>, a tie going to the even significand, with
  gradual underflow. There is no largest double in the model: \<open>fl\<close> is the rounding of
  IEEE 754 for \<open>\<bar>x\<bar> < 2^1024\<close>, where no operation overflows.
\<close>

definition rne :: "real \<Rightarrow> int" where
  "rne y = (let f = \<lfloor>y\<rfloor>; r = y - of_int f
            in if r < 1/2 then f else if 1/2 < r then f + 1
               else if even f then f else f + 1)"

definition ilog2 :: "real \<Rightarrow> int" where
  "ilog2 x = \<lfloor>log 2 \<bar>x\<bar>\<rfloor>"

definition expo :: "real \<Rightarrow> int" where
  "expo x = max (ilog2 x) (- 1022)"

definition quantum :: "real \<Rightarrow> real" where
  "quantum x = 2 powi (expo x - 52)"

definition fl :: "real \<Rightarrow> real" where
  "fl x = (if x = 0 then 0 else of_int (rne (x / quantum x)) * quantum x)"

text \<open>
  The bound used for the error of a few operations on numbers of size \<open>m\<close>: four
  units in the last place of \<open>m\<close>, and the least subnormal number four times.
\<close>

definition slack :: "real \<Rightarrow> real" where
  "slack m = m / 2 ^ 51 + 2 powi (- 1073)"

section \<open>Utils\<close>

text \<open>
  \<^verbatim>\<open>getRandomInRange: (min, max, precision = 0) => {
    const multiplier = Math.pow(10, precision);
    const randomValue = Math.random() * (max - min) + min;
    return Math.floor(randomValue * multiplier) / multiplier; }\<close>
  The first argument \<open>u\<close> is the value of \<^verbatim>\<open>Math.random()\<close>.
\<close>

definition randomValue :: "real \<Rightarrow> real \<Rightarrow> real \<Rightarrow> real" where
  "randomValue u mn mx = u * (mx - mn) + mn"

definition getRandomInRange :: "real \<Rightarrow> real \<Rightarrow> real \<Rightarrow> nat \<Rightarrow> real" where
  "getRandomInRange u mn mx precision =
     (let multiplier = 10 ^ precision
      in of_int \<lfloor>randomValue u mn mx * multiplier\<rfloor> / multiplier)"



text \<open>\<^verbatim>\<open>getRandomItem: (array) => array[Math.floor(Math.random() * array.length)]\<close>;
  reading past the end gives \<^verbatim>\<open>undefined\<close>, here \<open>None\<close>.\<close>

definition getRandomItem :: "real \<Rightarrow> 'a list \<Rightarrow> 'a option" where
  "getRandomItem u array =
     (let k = \<lfloor>u * real (length array)\<rfloor>
      in if 0 \<le> k \<and> nat k < length array then Some (array ! nat k) else None)"

text \<open>\<^verbatim>\<open>getScaleFactor: () => Math.log(window.innerWidth) / Math.log(1920)\<close>\<close>

definition getScaleFactor :: "real \<Rightarrow> real" where
  "getScaleFactor innerWidth = ln innerWidth / ln 1920"

section \<open>Cosine interpolation\<close>

text \<open>\<^verbatim>\<open>function interpolation(a, b, t) { return (1-cos(PI*t))/2 * (b-a) + a; }\<close>\<close>

definition interpolation :: "real \<Rightarrow> real \<Rightarrow> real \<Rightarrow> real" where
  "interpolation a b t = (1 - cos (pi * t)) / 2 * (b - a) + a"

text \<open>
  The same function in binary64. \<^verbatim>\<open>PI\<close> is \<^verbatim>\<open>Math.PI\<close>, the double nearest to \<open>\<pi>\<close>.
  \<^verbatim>\<open>cos\<close> is \<^verbatim>\<open>Math.cos\<close>, whose accuracy the language leaves to the implementation: it
  is the argument \<open>mcos\<close>. \<open>cos_b64\<close> is the cosine rounded correctly, the instance
  used to compute values.
\<close>

definition Math_PI :: real where
  "Math_PI = fl pi"

definition cos_b64 :: "real \<Rightarrow> real" where
  "cos_b64 x = fl (cos x)"

definition interpolation_b64 :: "(real \<Rightarrow> real) \<Rightarrow> real \<Rightarrow> real \<Rightarrow> real \<Rightarrow> real" where
  "interpolation_b64 mcos a b t =
     fl (fl (fl (fl (1 - mcos (fl (Math_PI * t))) / 2) * fl (b - a)) + a)"

section \<open>Canvas confetti\<close>

text \<open>
  JavaScript truthiness of the values the script tests: a string option stands for a
  string or \<^verbatim>\<open>null\<close> (the empty string is falsy), \<open>image\<close> for a loaded \<^verbatim>\<open>Image\<close>
  object or \<^verbatim>\<open>null\<close> (an object is always truthy).
\<close>

definition truthy_str :: "string option \<Rightarrow> bool" where
  "truthy_str v = (case v of None \<Rightarrow> False | Some s \<Rightarrow> s \<noteq> [])"

datatype direction = Left | Right

datatype radiusYDirection = Down | Up

text \<open>The fields of \<^verbatim>\<open>class Confetti\<close>; \<^verbatim>\<open>speed.x\<close> is \<open>speed_x\<close>, and so on.\<close>

record Confetti =
  speed_x :: real
  speed_y :: real
  finalSpeedX :: real
  rotationSpeed :: real
  dragCoefficient :: real
  radius_x :: real
  radius_y :: real
  initialRadius :: real
  rotationAngle :: real
  emojiRotationAngle :: real
  radiusYDirection :: radiusYDirection
  absCos :: real
  absSin :: real
  position_x :: real
  position_y :: real
  initialPosition_x :: real
  initialPosition_y :: real
  color :: "string option"
  emoji :: "string option"
  svgIcon :: "string option"
  svgImage :: "string option"
  createdAt :: real
  direction :: direction

text \<open>The argument object of \<^verbatim>\<open>new Confetti({ initialPosition, direction, radius, colors,
  emojis, svgIcon })\<close>.\<close>

record confettiArgs =
  arg_initialPosition_x :: real
  arg_initialPosition_y :: real
  arg_direction :: direction
  arg_radius :: real
  arg_colors :: "string list"
  arg_emojis :: "string list"
  arg_svgIcon :: "string option"

text \<open>What one run of the constructor reads from outside: the value of each call of
  \<^verbatim>\<open>Math.random()\<close>, named after the field it goes into, \<^verbatim>\<open>window.innerWidth\<close> and
  \<^verbatim>\<open>Date.now()\<close>.\<close>

record confettiEnv =
  u_speed :: real
  u_finalSpeedX :: real
  u_rotationSpeed :: real
  u_dragCoefficient :: real
  u_rotationAngle :: real
  u_emojiRotationAngle :: real
  u_angle :: real
  u_offset :: real
  u_color :: real
  u_emoji :: real
  env_innerWidth :: real
  env_now :: real

definition DEG_TO_RAD :: real where
  "DEG_TO_RAD = pi / 180"

definition Confetti_new :: "confettiArgs \<Rightarrow> confettiEnv \<Rightarrow> Confetti" where
  "Confetti_new a e =
     (let dir = arg_direction a;
          special = (0 < length (arg_emojis a) \<or> truthy_str (arg_svgIcon a));
          speedFactor = getRandomInRange (u_speed e) (9/10) (17/10) 3 * getScaleFactor (env_innerWidth e);
          angle = (if dir = Left then getRandomInRange (u_angle e) 82 15 0 * DEG_TO_RAD
                   else getRandomInRange (u_angle e) (-15) (-82) 0 * DEG_TO_RAD);
          ac = \<bar>cos angle\<bar>;
          as = \<bar>sin angle\<bar>;
          offset = getRandomInRange (u_offset e) (-150) 0 0;
          px = arg_initialPosition_x a + (if dir = Left then - offset else offset) * ac;
          py = arg_initialPosition_y a - offset * as
      in \<lparr> speed_x = speedFactor,
           speed_y = speedFactor,
           finalSpeedX = getRandomInRange (u_finalSpeedX e) (2/10) (6/10) 3,
           rotationSpeed = (if special then 1/100
              else getRandomInRange (u_rotationSpeed e) (3/100) (7/100) 3 * getScaleFactor (env_innerWidth e)),
           dragCoefficient = getRandomInRange (u_dragCoefficient e) (5/10000) (9/10000) 6,
           radius_x = arg_radius a,
           radius_y = arg_radius a,
           initialRadius = arg_radius a,
           rotationAngle = (if dir = Left then getRandomInRange (u_rotationAngle e) 0 (2/10) 3
              else getRandomInRange (u_rotationAngle e) (-(2/10)) 0 3),
           emojiRotationAngle = getRandomInRange (u_emojiRotationAngle e) 0 (2 * pi) 0,
           radiusYDirection = Down,
           absCos = ac,
           absSin = as,
           position_x = px,
           position_y = py,
           initialPosition_x = px,
           initialPosition_y = py,
           color = (if special then None else getRandomItem (u_color e) (arg_colors a)),
           emoji = (if 0 < length (arg_emojis a) then getRandomItem (u_emoji e) (arg_emojis a) else None),
           svgIcon = None,
           svgImage = (if truthy_str (arg_svgIcon a) then arg_svgIcon a else None),
           createdAt = env_now e,
           direction = dir \<rparr>)"

text \<open>The \<^verbatim>\<open>onload\<close> handler of the image: \<^verbatim>\<open>this.svgIcon = this.svgImage\<close>.\<close>

definition svgImage_onload :: "Confetti \<Rightarrow> Confetti" where
  "svgImage_onload p = p\<lparr>svgIcon := svgImage p\<rparr>"

text \<open>
  \<^verbatim>\<open>updatePosition(deltaTime, currentTime)\<close>, in the three parts of its body: the drag on
  \<^verbatim>\<open>speed.x\<close>, the new position, and the flutter of \<^verbatim>\<open>radius.y\<close> of a plain shape.
\<close>

definition applyDrag :: "real \<Rightarrow> Confetti \<Rightarrow> Confetti" where
  "applyDrag deltaTime p =
     (if speed_x p > finalSpeedX p
      then p\<lparr>speed_x := speed_x p - dragCoefficient p * deltaTime\<rparr>
      else p)"

definition movePosition :: "real \<Rightarrow> real \<Rightarrow> Confetti \<Rightarrow> Confetti" where
  "movePosition deltaTime elapsed p =
     p\<lparr>position_x := position_x p
          + speed_x p * (if direction p = Left then - absCos p else absCos p) * deltaTime,
       position_y := initialPosition_y p - speed_y p * absSin p * elapsed
          + (125/100000) * elapsed ^ 2 / 2\<rparr>"

definition flutter :: "real \<Rightarrow> Confetti \<Rightarrow> Confetti" where
  "flutter deltaTime p =
     (if \<not> truthy_str (emoji p) \<and> svgIcon p = None then
        (let rs = max (rotationSpeed p - (1/100000) * deltaTime) 0;
             p' = p\<lparr>rotationSpeed := rs\<rparr>
         in if radiusYDirection p' = Down then
              (let ry = radius_y p' - deltaTime * rs
               in if ry \<le> 0 then p'\<lparr>radius_y := 0, radiusYDirection := Up\<rparr>
                  else p'\<lparr>radius_y := ry\<rparr>)
            else
              (let ry = radius_y p' + deltaTime * rs
               in if ry \<ge> initialRadius p' then p'\<lparr>radius_y := initialRadius p', radiusYDirection := Down\<rparr>
                  else p'\<lparr>radius_y := ry\<rparr>))
      else p)"

definition updatePosition :: "real \<Rightarrow> real \<Rightarrow> Confetti \<Rightarrow> Confetti" where
  "updatePosition deltaTime currentTime p =
     (let elapsed = currentTime - createdAt p
      in flutter deltaTime (movePosition deltaTime elapsed (applyDrag deltaTime p)))"

text \<open>\<^verbatim>\<open>isVisible(canvasHeight) { return this.position.y < canvasHeight + 100; }\<close>\<close>

definition isVisible :: "real \<Rightarrow> Confetti \<Rightarrow> bool" where
  "isVisible canvasHeight p = (position_y p < canvasHeight + 100)"

text \<open>A sequence of calls \<^verbatim>\<open>updatePosition(deltaTime, currentTime)\<close> on one particle.\<close>

fun updatePositions :: "(real \<times> real) list \<Rightarrow> Confetti \<Rightarrow> Confetti" where
  "updatePositions [] p = p"
| "updatePositions ((deltaTime, currentTime) # calls) p =
     updatePositions calls (updatePosition deltaTime currentTime p)"

section \<open>The confetti manager\<close>

text \<open>\<^verbatim>\<open>defaultConfettiConfig\<close>, and the configuration after
  \<^verbatim>\<open>{ ...defaultConfettiConfig, ...config }\<close>: a key the caller gives wins.\<close>

record confettiConfig =
  confettiesNumber :: int
  confettiRadius :: real
  confettiColors :: "string list"
  emojies :: "string list"
  cfg_svgIcon :: "string option"

record partialConfig =
  opt_confettiesNumber :: "int option"
  opt_confettiRadius :: "real option"
  opt_confettiColors :: "string list option"
  opt_emojies :: "string list option"
  opt_svgIcon :: "string option option"

definition defaultConfettiConfig :: confettiConfig where
  "defaultConfettiConfig =
     \<lparr> confettiesNumber = 295,
       confettiRadius = 5,
       confettiColors = [''#c3c77e'', ''#c7548c'', ''#6d3ba6'', ''#20c371'',
                         ''#11888d'', ''#a6660e'', ''#a40e0e'', ''#34a40e''],
       emojies = [],
       cfg_svgIcon = None \<rparr>"

definition emptyConfig :: partialConfig where
  "emptyConfig = \<lparr> opt_confettiesNumber = None, opt_confettiRadius = None,
     opt_confettiColors = None, opt_emojies = None, opt_svgIcon = None \<rparr>"

definition mergeConfig :: "partialConfig \<Rightarrow> confettiConfig" where
  "mergeConfig c =
     \<lparr> confettiesNumber = (case opt_confettiesNumber c of Some v \<Rightarrow> v
          | None \<Rightarrow> confettiesNumber defaultConfettiConfig),
       confettiRadius = (case opt_confettiRadius c of Some v \<Rightarrow> v
          | None \<Rightarrow> confettiRadius defaultConfettiConfig),
       confettiColors = (case opt_confettiColors c of Some v \<Rightarrow> v
          | None \<Rightarrow> confettiColors defaultConfettiConfig),
       emojies = (case opt_emojies c of Some v \<Rightarrow> v
          | None \<Rightarrow> emojies defaultConfettiConfig),
       cfg_svgIcon = (case opt_svgIcon c of Some v \<Rightarrow> v
          | None \<Rightarrow> cfg_svgIcon defaultConfettiConfig) \<rparr>"

text \<open>The argument objects of the two constructor calls of one iteration.\<close>

definition edgeArgs :: "confettiConfig \<Rightarrow> real \<Rightarrow> real \<Rightarrow> direction \<Rightarrow> confettiArgs" where
  "edgeArgs cfg x baseY dir =
     \<lparr> arg_initialPosition_x = x,
       arg_initialPosition_y = baseY,
       arg_direction = dir,
       arg_radius = confettiRadius cfg,
       arg_colors = confettiColors cfg,
       arg_emojis = emojies cfg,
       arg_svgIcon = cfg_svgIcon cfg \<rparr>"

text \<open>
  \<^verbatim>\<open>for (let i = 0; i < confettiesNumber / 2; i++) { push(new Confetti({x: 0 .. "right"}));
    push(new Confetti({x: window.innerWidth .. "left"})); }\<close>
  The loop collects the constructor calls in the order they are made; the division is
  the division of numbers, not of integers.
\<close>

function addConfetti_loop ::
  "confettiConfig \<Rightarrow> real \<Rightarrow> real \<Rightarrow> int \<Rightarrow> confettiArgs list \<Rightarrow> confettiArgs list" where
  "addConfetti_loop cfg innerWidth baseY i calls =
     (if (of_int i :: real) < of_int (confettiesNumber cfg) / 2
      then addConfetti_loop cfg innerWidth baseY (i + 1)
             (calls @ [edgeArgs cfg 0 baseY Right, edgeArgs cfg innerWidth baseY Left])
      else calls)"
  by pat_completeness auto
termination
  by (relation "measure (\<lambda>(cfg, w, y, i, calls). nat (confettiesNumber cfg - 2 * i))") auto

declare addConfetti_loop.simps [simp del]

definition addConfetti_calls :: "partialConfig \<Rightarrow> real \<Rightarrow> real \<Rightarrow> confettiArgs list" where
  "addConfetti_calls config innerWidth innerHeight =
     (let cfg = mergeConfig config;
          baseY = (5 * innerHeight) / 7
      in addConfetti_loop cfg innerWidth baseY 0 [])"

text \<open>\<^verbatim>\<open>addConfetti(config)\<close>: the particles are appended to \<^verbatim>\<open>this.confetti\<close>; the
  \<open>k\<close>-th constructor call of the burst reads \<open>envs k\<close>.\<close>

definition addConfetti ::
  "partialConfig \<Rightarrow> real \<Rightarrow> real \<Rightarrow> (nat \<Rightarrow> confettiEnv) \<Rightarrow> Confetti list \<Rightarrow> Confetti list" where
  "addConfetti config innerWidth innerHeight envs confetti =
     confetti @ map (\<lambda>(k, a). Confetti_new a (envs k))
                    (enumerate 0 (addConfetti_calls config innerWidth innerHeight))"

text \<open>\<^verbatim>\<open>resetAndStart(config) { this.confetti = []; this.addConfetti(config); }\<close>\<close>

definition resetAndStart ::
  "partialConfig \<Rightarrow> real \<Rightarrow> real \<Rightarrow> (nat \<Rightarrow> confettiEnv) \<Rightarrow> Confetti list \<Rightarrow> Confetti list" where
  "resetAndStart config innerWidth innerHeight envs confetti =
     addConfetti config innerWidth innerHeight envs []"

section \<open>The 1D Poisson disc of the background confetti\<close>

text \<open>\<^verbatim>\<open>eccentricity = 10\<close>; \<^verbatim>\<open>var radius = 1/eccentricity, radius2 = radius+radius;\<close>\<close>

definition eccentricity :: real where
  "eccentricity = 10"

definition radius :: real where
  "radius = 1 / eccentricity"

definition radius2 :: real where
  "radius2 = radius + radius"

text \<open>
  \<^verbatim>\<open>domain\<close> is a flat array: the intervals still available are \<open>[d\<^sub>i, d\<^sub>i\<^sub>+\<^sub>1]\<close> for even
  \<open>i\<close>. The three inner loops of \<^verbatim>\<open>createPoisson\<close> walk it two entries at a time.

  Find where the dart lies:
  \<^verbatim>\<open>for (i = 0, l = domain.length, measure = 0; i < l; i += 2) {
    a = domain[i], b = domain[i+1], interval = b-a;
    if (dart < measure+interval) { spline.push(dart += a-measure); break; }
    measure += interval; }\<close>
  The result is the new value of \<^verbatim>\<open>dart\<close> when one was pushed, and \<open>None\<close> when the loop
  ran to its end (then nothing is pushed and \<^verbatim>\<open>dart\<close> keeps its value).
\<close>

fun find_dart :: "real \<Rightarrow> real \<Rightarrow> real list \<Rightarrow> real option" where
  "find_dart dart m (a # b # ds) =
     (if dart < m + (b - a) then Some (dart + (a - m))
      else find_dart dart (m + (b - a)) ds)"
| "find_dart dart m ds = None"

text \<open>
  Update the domain:
  \<^verbatim>\<open>for (i = domain.length-1; i > 0; i -= 2) {
    l = i-1, a = domain[l], b = domain[i];
    if (a >= c && a < d)
      if (b > d) domain[l] = d;          // Move interior (Left case)
      else domain.splice(l, 2);          // Delete interval
    else if (a < c && b > c)
      if (b <= d) domain[i] = c;         // Move interior (Right case)
      else domain.splice(i, 0, c, d);    // Split interval
  }\<close>
  The loop goes from the last pair to the first and changes the array in place, at the
  pair it looks at and to its right only; so every pair of the old array is replaced by
  zero, one or two pairs, whatever the others are. The array always has an even length
  (lemma \<open>even_length_update_domain\<close> below), so the pairs from the right are the pairs
  from the left.
\<close>

fun update_domain :: "real \<Rightarrow> real \<Rightarrow> real list \<Rightarrow> real list" where
  "update_domain c d (a # b # ds) =
     (if a \<ge> c \<and> a < d then (if b > d then [d, b] else [])
      else if a < c \<and> b > c then (if b \<le> d then [a, c] else [a, c, d, b])
      else [a, b]) @ update_domain c d ds"
| "update_domain c d ds = ds"

text \<open>
  Re-measure the domain:
  \<^verbatim>\<open>for (i = 0, l = domain.length, measure = 0; i < l; i += 2)
    measure += domain[i+1]-domain[i];\<close>
\<close>

fun measure_domain :: "real list \<Rightarrow> real" where
  "measure_domain (a # b # ds) = (b - a) + measure_domain ds"
| "measure_domain ds = 0"

text \<open>
  The outer loop \<^verbatim>\<open>while (measure) { var dart = measure * random(); .. }\<close>. Each turn
  takes one draw of \<^verbatim>\<open>random()\<close>; the draws are the list \<open>us\<close>, in order. The loop ends
  when \<^verbatim>\<open>measure\<close> (here \<open>msr\<close>) is 0; \<open>None\<close> says that the draws given were used up before that.
\<close>

fun poisson_loop :: "real list \<Rightarrow> real list \<Rightarrow> real \<Rightarrow> real list \<Rightarrow> real list option" where
  "poisson_loop [] domain msr spline = (if msr = 0 then Some spline else None)"
| "poisson_loop (u # us) domain msr spline =
     (if msr = 0 then Some spline
      else
        (let dart0 = msr * u;
             found = find_dart dart0 0 domain;
             dart = (case found of Some x \<Rightarrow> x | None \<Rightarrow> dart0);
             spline' = (case found of Some x \<Rightarrow> spline @ [x] | None \<Rightarrow> spline);
             c = dart - radius;
             d = dart + radius;
             domain' = update_domain c d domain
         in poisson_loop us domain' (measure_domain domain') spline'))"

text \<open>
  \<^verbatim>\<open>var domain = [radius, 1-radius], measure = 1-radius2, spline = [0, 1]; while ..;
  return spline.sort();\<close>
  \<^verbatim>\<open>sort()\<close> without a comparison function orders the numbers by their decimal strings.
  The entries are 0, 1 and numbers between \<open>radius\<close> and \<open>1 - radius\<close>, which print as
  \<^verbatim>\<open>0\<close>, \<^verbatim>\<open>1\<close> and \<^verbatim>\<open>0.\<close> followed by digits: on these the order of the strings is the order
  of the numbers, and the model sorts by value.
\<close>

definition createPoisson :: "real list \<Rightarrow> real list option" where
  "createPoisson us =
     map_option sort (poisson_loop us [radius, 1 - radius] (1 - radius2) [0, 1])"

text \<open>Adjacent entries of a sequence differ by at least \<open>g\<close>.\<close>

fun min_gap :: "real \<Rightarrow> real list \<Rightarrow> bool" where
  "min_gap g (x # y # zs) = (g \<le> y - x \<and> min_gap g (y # zs))"
| "min_gap g zs = True"

text \<open>
  The invariant of the outer loop. Every interval of the domain is a proper interval
  inside \<open>[0, 1]\<close> and keeps the distance \<open>radius\<close> from every sample taken so far; the
  samples lie in \<open>[0, 1]\<close>, include 0 and 1, and any two of them are \<open>radius\<close> apart.
\<close>

fun domain_ok :: "real list \<Rightarrow> real list \<Rightarrow> bool" where
  "domain_ok S (a # b # ds) =
     (a < b \<and> 0 \<le> a \<and> b \<le> 1 \<and> (\<forall>s \<in> set S. s + radius \<le> a \<or> b + radius \<le> s)
      \<and> domain_ok S ds)"
| "domain_ok S [] = True"
| "domain_ok S [a] = False"

definition spline_ok :: "real list \<Rightarrow> bool" where
  "spline_ok S =
     (distinct S \<and> 0 \<in> set S \<and> 1 \<in> set S \<and> (\<forall>x \<in> set S. 0 \<le> x \<and> x \<le> 1)
      \<and> (\<forall>x \<in> set S. \<forall>y \<in> set S. x \<noteq> y \<longrightarrow> radius \<le> \<bar>x - y\<bar>))"

text \<open>
  The variant of the outer loop: every interval of the domain counts 1 plus twice its
  length in units of \<open>radius\<close>, rounded up. A dart that lands in the domain lowers the
  sum, which starts at 17.
\<close>

fun potential :: "real list \<Rightarrow> nat" where
  "potential (a # b # ds) = 1 + 2 * nat \<lceil>(b - a) / radius\<rceil> + potential ds"
| "potential ds = 0"

subsection \<open>The sampler in binary64\<close>

text \<open>
  The same program with every operation followed by \<open>fl\<close>. \<open>update_domain\<close> only
  compares and copies numbers and is used as it is. The two loops that add up the
  lengths of the intervals go from left to right with one accumulator, which is the
  second argument of \<open>find_dart_b64\<close> and the first of \<open>measure_b64\<close>.
\<close>

definition radius_b64 :: real where
  "radius_b64 = fl (1 / eccentricity)"

definition radius2_b64 :: real where
  "radius2_b64 = fl (radius_b64 + radius_b64)"

fun find_dart_b64 :: "real \<Rightarrow> real \<Rightarrow> real list \<Rightarrow> real option" where
  "find_dart_b64 dart m (a # b # ds) =
     (if dart < fl (m + fl (b - a)) then Some (fl (dart + fl (a - m)))
      else find_dart_b64 dart (fl (m + fl (b - a))) ds)"
| "find_dart_b64 dart m ds = None"

fun measure_b64 :: "real \<Rightarrow> real list \<Rightarrow> real" where
  "measure_b64 m (a # b # ds) = measure_b64 (fl (m + fl (b - a))) ds"
| "measure_b64 m ds = m"

fun poisson_loop_b64 :: "real list \<Rightarrow> real list \<Rightarrow> real \<Rightarrow> real list \<Rightarrow> real list option" where
  "poisson_loop_b64 [] domain msr spline = (if msr = 0 then Some spline else None)"
| "poisson_loop_b64 (u # us) domain msr spline =
     (if msr = 0 then Some spline
      else
        (let dart0 = fl (msr * u);
             found = find_dart_b64 dart0 0 domain;
             dart = (case found of Some x \<Rightarrow> x | None \<Rightarrow> dart0);
             spline' = (case found of Some x \<Rightarrow> spline @ [x] | None \<Rightarrow> spline);
             c = fl (dart - radius_b64);
             d = fl (dart + radius_b64);
             domain' = update_domain c d domain
         in poisson_loop_b64 us domain' (measure_b64 0 domain') spline'))"

text \<open>
  The entries of the result are 0, 1 and doubles between them that print as \<^verbatim>\<open>0.\<close>
  followed by digits (lemma \<open>poisson_loop_b64_ok\<close> below), so \<^verbatim>\<open>sort()\<close> orders them by
  value here too.
\<close>

definition createPoisson_b64 :: "real list \<Rightarrow> real list option" where
  "createPoisson_b64 us =
     map_option sort
       (poisson_loop_b64 us [radius_b64, fl (1 - radius_b64)] (fl (1 - radius2_b64)) [0, 1])"

text \<open>
  The invariant of the outer loop in binary64. The intervals of the domain are proper,
  lie in \<open>[0, 1]\<close> from left to right without overlap (\<open>lo\<close> is the right end of the
  interval before), and keep the distance \<open>radius_b64\<close> from every sample, up to the
  rounding \<open>tol\<close> of the two ends \<^verbatim>\<open>dart-radius\<close> and \<^verbatim>\<open>dart+radius\<close>. Any two samples are
  \<open>g\<close> apart.
\<close>

definition tol :: real where
  "tol = 1 / 2 ^ 52"

fun domain_b64_ok :: "real \<Rightarrow> real list \<Rightarrow> real list \<Rightarrow> bool" where
  "domain_b64_ok lo S (a # b # ds) =
     (lo \<le> a \<and> a < b \<and> b \<le> 1
      \<and> (\<forall>s \<in> set S. b \<le> s - radius_b64 + tol \<or> s + radius_b64 - tol \<le> a)
      \<and> domain_b64_ok b S ds)"
| "domain_b64_ok lo S [] = True"
| "domain_b64_ok lo S [a] = False"

definition spline_b64_ok :: "real \<Rightarrow> real list \<Rightarrow> bool" where
  "spline_b64_ok g S =
     (distinct S \<and> 0 \<in> set S \<and> 1 \<in> set S \<and> (\<forall>x \<in> set S. 0 \<le> x \<and> x \<le> 1)
      \<and> (\<forall>x \<in> set S. \<forall>y \<in> set S. x \<noteq> y \<longrightarrow> g \<le> \<bar>x - y\<bar>))"

section \<open>Background confetti: one confetto\<close>

text \<open>The tuning constants of \<^verbatim>\<open>enableBackgroundConfetti\<close> that the motion uses.\<close>

definition spread :: real where "spread = 40"
definition deviation :: real where "deviation = 100"
definition dxThetaMin :: real where "dxThetaMin = - (1/10)"
definition dxThetaMax :: real where "dxThetaMax = - dxThetaMin - dxThetaMin"
definition dyMin :: real where "dyMin = 13/100"
definition dyMax :: real where "dyMax = 18/100"
definition dThetaMin :: real where "dThetaMin = 4/10"
definition dThetaMax :: real where "dThetaMax = 7/10 - dThetaMin"

text \<open>
  A JavaScript array that may have holes: \<open>None\<close> is a hole (it reads as
  \<^verbatim>\<open>undefined\<close>). Writing at or past the end extends the array; reading past the end
  gives \<^verbatim>\<open>undefined\<close>.
\<close>

definition array_set :: "'a option list \<Rightarrow> nat \<Rightarrow> 'a \<Rightarrow> 'a option list" where
  "array_set xs i v =
     (if i < length xs then xs[i := Some v]
      else xs @ replicate (i - length xs) None @ [Some v])"

definition array_get :: "'a option list \<Rightarrow> nat \<Rightarrow> 'a option" where
  "array_get xs i = (if i < length xs then xs ! i else None)"

text \<open>
  The state of a \<^verbatim>\<open>Confetto\<close> that its motion reads and writes. Of the two DOM nodes
  only \<^verbatim>\<open>outerStyle.left\<close> and \<^verbatim>\<open>outerStyle.top\<close> are kept, as numbers of pixels
  (\<open>None\<close> when the number is NaN); size, colour and the rotation strings are left out.
\<close>

record Confetto =
  cf_frame :: real
  cf_x :: real
  cf_y :: real
  cf_theta :: real
  cf_dTheta :: real
  cf_dx :: real
  cf_dy :: real
  splineX :: "real list"
  splineY :: "real option list"
  outer_left :: "real option"
  outer_top :: "real option"

text \<open>What one run of the constructor reads from outside: the draws of
  \<^verbatim>\<open>random()\<close> (those of \<^verbatim>\<open>createPoisson\<close> as a list, the one for \<^verbatim>\<open>splineY[i]\<close> as
  \<open>u_splineY i\<close>) and \<^verbatim>\<open>window.innerWidth\<close>.\<close>

record confettoEnv =
  u_theta :: real
  u_dTheta :: real
  u_x :: real
  u_dx :: real
  u_dy :: real
  u_poisson :: "real list"
  u_splineY :: "nat \<Rightarrow> real"
  u_splineY_ends :: real
  env_width :: real

text \<open>\<^verbatim>\<open>for (var i = 1, l = this.splineX.length-1; i < l; ++i)
    this.splineY[i] = deviation * random();\<close>\<close>

function splineY_loop :: "nat \<Rightarrow> int \<Rightarrow> (nat \<Rightarrow> real) \<Rightarrow> real option list \<Rightarrow> real option list" where
  "splineY_loop i l us ys =
     (if int i < l then splineY_loop (Suc i) l us (array_set ys i (deviation * us i))
      else ys)"
  by pat_completeness auto
termination
  by (relation "measure (\<lambda>(i, l, us, ys). nat (l - int i))") auto

declare splineY_loop.simps [simp del]

text \<open>
  The constructor, from \<^verbatim>\<open>this.frame = 0\<close> on. After the loop,
  \<^verbatim>\<open>this.splineY[0] = this.splineY[l] = deviation * random();\<close> writes index \<open>l\<close>, then
  index 0 (a negative \<open>l\<close> is not an index and leaves the array as it is). The result is
  \<open>None\<close> when the draws given to \<^verbatim>\<open>createPoisson\<close> were used up.
\<close>

definition Confetto_new :: "confettoEnv \<Rightarrow> Confetto option" where
  "Confetto_new e =
     (case createPoisson (u_poisson e) of
        None \<Rightarrow> None
      | Some sx \<Rightarrow>
          (let x0 = env_width e * u_x e;
               y0 = - deviation;
               l = int (length sx) - 1;
               ys = splineY_loop 1 l (u_splineY e) [];
               v = deviation * u_splineY_ends e;
               ys' = (if 0 \<le> l then array_set ys (nat l) v else ys);
               ys'' = array_set ys' 0 v
           in Some \<lparr> cf_frame = 0,
                     cf_x = x0,
                     cf_y = y0,
                     cf_theta = 360 * u_theta e,
                     cf_dTheta = dThetaMin + dThetaMax * u_dTheta e,
                     cf_dx = sin (dxThetaMin + dxThetaMax * u_dx e),
                     cf_dy = dyMin + dyMax * u_dy e,
                     splineX = sx,
                     splineY = ys'',
                     outer_left = Some x0,
                     outer_top = Some y0 \<rparr>))"

text \<open>The remainder \<^verbatim>\<open>a % b\<close> of numbers: the quotient is cut towards zero, so the
  result has the sign of \<open>a\<close>.\<close>

definition js_rem :: "real \<Rightarrow> real \<Rightarrow> real" where
  "js_rem a b = a - b * of_int (if 0 \<le> a / b then \<lfloor>a / b\<rfloor> else \<lceil>a / b\<rceil>)"

text \<open>
  \<^verbatim>\<open>i = 0, j = 1; while (phi >= this.splineX[j]) i = j++;\<close>
  Past the end \<^verbatim>\<open>splineX[j]\<close> is \<^verbatim>\<open>undefined\<close> and the comparison is false, so the loop
  stops there at the latest.
\<close>

function bracket :: "real list \<Rightarrow> real \<Rightarrow> nat \<Rightarrow> nat \<Rightarrow> nat \<times> nat" where
  "bracket xs phi i j =
     (if j < length xs \<and> phi \<ge> xs ! j then bracket xs phi j (Suc j) else (i, j))"
  by pat_completeness auto
termination
  by (relation "measure (\<lambda>(xs, phi, i, j). length xs - j)") auto

declare bracket.simps [simp del]

text \<open>
  \<^verbatim>\<open>var rho = interpolation(this.splineY[i], this.splineY[j],
    (phi-this.splineX[i]) / (this.splineX[j]-this.splineX[i]));\<close>
  The result is NaN (\<open>None\<close>) when one of the four reads is \<^verbatim>\<open>undefined\<close> or when the
  two spline positions are equal.
\<close>

definition spline_rho :: "Confetto \<Rightarrow> real \<Rightarrow> nat \<Rightarrow> nat \<Rightarrow> real option" where
  "spline_rho c phi i j =
     (case (array_get (splineY c) i, array_get (splineY c) j,
            array_get (map Some (splineX c)) i, array_get (map Some (splineX c)) j) of
        (Some a, Some b, Some xi, Some xj) \<Rightarrow>
          (if xj = xi then None else Some (interpolation a b ((phi - xi) / (xj - xi))))
      | _ \<Rightarrow> None)"

definition confetto_phi :: "real \<Rightarrow> real" where
  "confetto_phi frame = js_rem frame 7777 / 7777"

text \<open>\<^verbatim>\<open>this.update = function(height, delta) { .. return this.y > height+deviation; }\<close>:
  the new state and the result.\<close>

definition Confetto_update :: "real \<Rightarrow> real \<Rightarrow> Confetto \<Rightarrow> Confetto \<times> bool" where
  "Confetto_update height delta c =
     (let frame' = cf_frame c + delta;
          x' = cf_x c + cf_dx c * delta;
          y' = cf_y c + cf_dy c * delta;
          theta' = cf_theta c + cf_dTheta c * delta;
          phi = confetto_phi frame';
          rho = (case bracket (splineX c) phi 0 1 of (i, j) \<Rightarrow> spline_rho c phi i j);
          phi2 = phi * (pi * 2)
      in (c\<lparr> cf_frame := frame', cf_x := x', cf_y := y', cf_theta := theta',
              outer_left := map_option (\<lambda>r. x' + r * cos phi2) rho,
              outer_top := map_option (\<lambda>r. y' + r * sin phi2) rho \<rparr>,
          y' > height + deviation))"

text \<open>A sequence of calls \<^verbatim>\<open>update(height, delta)\<close> on one confetto.\<close>

fun Confetto_updates :: "(real \<times> real) list \<Rightarrow> Confetto \<Rightarrow> Confetto" where
  "Confetto_updates [] c = c"
| "Confetto_updates ((height, delta) # calls) c =
     Confetto_updates calls (fst (Confetto_update height delta c))"

text \<open>The confetto is still alive after these calls: none of them returned true.\<close>

fun survives :: "(real \<times> real) list \<Rightarrow> Confetto \<Rightarrow> bool" where
  "survives [] c = True"
| "survives ((height, delta) # calls) c =
     (\<not> snd (Confetto_update height delta c)
      \<and> survives calls (fst (Confetto_update height delta c)))"

section \<open>Background confetti: the system\<close>

text \<open>
  The variables that \<^verbatim>\<open>poof\<close>, \<^verbatim>\<open>addConfetto\<close> and \<^verbatim>\<open>loop\<close> share: \<^verbatim>\<open>timer\<close> and
  \<^verbatim>\<open>frame\<close> (\<^verbatim>\<open>undefined\<close> or a handle), \<^verbatim>\<open>confetti\<close>, \<^verbatim>\<open>prev\<close>; whether the container is
  a child of \<^verbatim>\<open>document.body\<close>; and whether a call of \<^verbatim>\<open>loop\<close> is requested for the
  next animation frame. A handle is truthy when it is not 0, a number likewise.
\<close>

record DomSystem =
  sys_timer :: "nat option"
  sys_frame :: "nat option"
  sys_confetti :: "Confetto list"
  sys_prev :: "real option"
  sys_attached :: bool
  sys_loop :: bool

definition truthy_handle :: "nat option \<Rightarrow> bool" where
  "truthy_handle v = (case v of None \<Rightarrow> False | Some h \<Rightarrow> 0 < h)"

definition truthy_num :: "real option \<Rightarrow> bool" where
  "truthy_num v = (case v of None \<Rightarrow> False | Some r \<Rightarrow> r \<noteq> 0)"

definition initialSystem :: DomSystem where
  "initialSystem = \<lparr> sys_timer = None, sys_frame = None, sys_confetti = [],
     sys_prev = None, sys_attached = False, sys_loop = False \<rparr>"

text \<open>
  \<^verbatim>\<open>(function addConfetto() { var confetto = new Confetto(theme); confetti.push(confetto);
    container.appendChild(confetto.outer);
    timer = setTimeout(addConfetto, spread * random()); })\<close>
  The arguments are the confetto that the constructor made and the handle that
  \<^verbatim>\<open>setTimeout\<close> returned.
\<close>

definition addConfetto :: "Confetto \<Rightarrow> nat \<Rightarrow> DomSystem \<Rightarrow> DomSystem" where
  "addConfetto confetto handle s =
     s\<lparr> sys_confetti := sys_confetti s @ [confetto], sys_timer := Some handle \<rparr>"

text \<open>
  \<^verbatim>\<open>function poof() { if (!frame) { document.body.appendChild(container);
    (function addConfetto() ..)(0); var prev = undefined; requestAnimationFrame(loop..); } }\<close>
\<close>

definition poof :: "Confetto \<Rightarrow> nat \<Rightarrow> DomSystem \<Rightarrow> DomSystem" where
  "poof confetto handle s =
     (if \<not> truthy_handle (sys_frame s)
      then (addConfetto confetto handle (s\<lparr> sys_attached := True \<rparr>))
             \<lparr> sys_prev := None, sys_loop := True \<rparr>
      else s)"

text \<open>
  \<^verbatim>\<open>for (var i = confetti.length-1; i >= 0; --i) {
    if (confetti[i].update(height, delta)) {
      container.removeChild(confetti[i].outer); confetti.splice(i, 1); } }\<close>
  from the last confetto to the first.
\<close>

definition update_confetti :: "real \<Rightarrow> real \<Rightarrow> Confetto list \<Rightarrow> Confetto list" where
  "update_confetti height delta cs =
     foldr (\<lambda>c rest. case Confetto_update height delta c of
                        (c', done) \<Rightarrow> if done then rest else c' # rest) cs []"

text \<open>
  \<^verbatim>\<open>function loop(timestamp) { var delta = prev ? timestamp - prev : 0; prev = timestamp;
    var height = window.innerHeight; for ..;
    if (timer || confetti.length) return frame = requestAnimationFrame(loop);
    document.body.removeChild(container); frame = undefined; }\<close>
  The arguments are the timestamp, \<^verbatim>\<open>window.innerHeight\<close> and the handle that
  \<^verbatim>\<open>requestAnimationFrame\<close> returns if it is called.
\<close>

definition loop :: "real \<Rightarrow> real \<Rightarrow> nat \<Rightarrow> DomSystem \<Rightarrow> DomSystem" where
  "loop timestamp innerHeight handle s =
     (let delta = (if truthy_num (sys_prev s) then timestamp - the (sys_prev s) else 0);
          cs = update_confetti innerHeight delta (sys_confetti s);
          s' = s\<lparr> sys_prev := Some timestamp, sys_confetti := cs \<rparr>
      in if truthy_handle (sys_timer s') \<or> 0 < length cs
         then s'\<lparr> sys_frame := Some handle, sys_loop := True \<rparr>
         else s'\<lparr> sys_attached := False, sys_frame := None, sys_loop := False \<rparr>)"

text \<open>
  What the browser does to the system after \<^verbatim>\<open>poof\<close>: a spawn timer fires and runs
  \<^verbatim>\<open>addConfetto\<close>, or an animation frame comes and runs \<^verbatim>\<open>loop\<close> if it was requested.
\<close>

datatype event = Spawn Confetto nat | Frame real real nat

fun step :: "event \<Rightarrow> DomSystem \<Rightarrow> DomSystem" where
  "step (Spawn confetto handle) s = addConfetto confetto handle s"
| "step (Frame timestamp innerHeight handle) s =
     (if sys_loop s then loop timestamp innerHeight handle s else s)"

fun run :: "event list \<Rightarrow> DomSystem \<Rightarrow> DomSystem" where
  "run [] s = s"
| "run (e # es) s = run es (step e s)"

text \<open>The handle that \<^verbatim>\<open>setTimeout\<close> returned in a spawn, if the event is one.\<close>

fun spawn_handle_ok :: "event \<Rightarrow> bool" where
  "spawn_handle_ok (Spawn confetto handle) = (0 < handle)"
| "spawn_handle_ok (Frame timestamp innerHeight handle) = True"

text \<open>The arguments \<open>(height, delta)\<close> that a run of frames gives to \<^verbatim>\<open>update\<close>,
  from the value of \<^verbatim>\<open>prev\<close> before the first of them.\<close>

fun frame_inputs :: "real option \<Rightarrow> (real \<times> real \<times> nat) list \<Rightarrow> (real \<times> real) list" where
  "frame_inputs pr [] = []"
| "frame_inputs pr ((timestamp, innerHeight, handle) # fs) =
     (innerHeight, if truthy_num pr then timestamp - the pr else 0)
       # frame_inputs (Some timestamp) fs"

definition frame_events :: "(real \<times> real \<times> nat) list \<Rightarrow> event list" where
  "frame_events fs = map (\<lambda>(timestamp, innerHeight, handle). Frame timestamp innerHeight handle) fs"

section \<open>Sample inputs\<close>

text \<open>Concrete inputs on which the theorems below are evaluated: the readings of one
  run of the \<^verbatim>\<open>Confetti\<close> constructor at window width 1920 and a particle it builds
  (\<^verbatim>\<open>speed.x = 1\<close>, \<^verbatim>\<open>finalSpeedX = 0.5\<close>, \<^verbatim>\<open>dragCoefficient = 0.0005\<close>,
  \<^verbatim>\<open>radius = 5\<close>); the configuration \<^verbatim>\<open>{count: 100, radius: 5, colors: ["#fff"]}\<close>;
  three confetti of the background shower that fall at different rates; and the
  readings of one run of the \<^verbatim>\<open>Confetto\<close> constructor.\<close>

abbreviation sampleEnv :: confettiEnv where
  "sampleEnv \<equiv> \<lparr>u_speed = 1/8, u_finalSpeedX = 3/4, u_rotationSpeed = 1/2,
              u_dragCoefficient = 0, u_rotationAngle = 1/2, u_emojiRotationAngle = 1/2,
              u_angle = 1/2, u_offset = 1/2, u_color = 1/2, u_emoji = 1/2,
              env_innerWidth = 1920, env_now = 0\<rparr>"

abbreviation sampleConfetti :: Confetti where
  "sampleConfetti \<equiv> Confetti_new (edgeArgs defaultConfettiConfig 0 0 Right) sampleEnv"

abbreviation config100 :: partialConfig where
  "config100 \<equiv> emptyConfig\<lparr>opt_confettiesNumber := Some 100,
       opt_confettiRadius := Some 5, opt_confettiColors := Some [''#fff'']\<rparr>"

abbreviation confetto1 :: Confetto where
  "confetto1 \<equiv> \<lparr>cf_frame = 0, cf_x = 0, cf_y = - 100, cf_theta = 0, cf_dTheta = 1/2,
        cf_dx = 0, cf_dy = 1/5, splineX = [0, 1/2, 1], splineY = [Some 1, Some 2, Some 1],
        outer_left = Some 0, outer_top = Some (- 100)\<rparr>"

abbreviation confetto2 :: Confetto where
  "confetto2 \<equiv> \<lparr>cf_frame = 0, cf_x = 0, cf_y = - 100, cf_theta = 0, cf_dTheta = 1/2,
        cf_dx = 0, cf_dy = 1/4, splineX = [0, 1/2, 1], splineY = [Some 1, Some 2, Some 1],
        outer_left = Some 0, outer_top = Some (- 100)\<rparr>"



section \<open>Properties of binary64 rounding\<close>

subsection \<open>Rounding to an integer\<close>

text \<open>
  What the proofs below use of \<open>fl\<close>: it is odd and monotone, it leaves the doubles as
  they are (\<open>fl_idem\<close>, \<open>fl_exact\<close>: an integer of 53 bits times a power of two), and it is
  off by at most half a \<open>quantum\<close>, which is at most \<open>\<bar>x\<bar> / 2^53\<close> for a normal number
  (\<open>fl_error\<close>, \<open>fl_error_coarse\<close>).
\<close>

lemma rne_of_int [simp]: "rne (of_int k) = k"
  by (simp add: rne_def)

lemma rne_0 [simp]: "rne 0 = 0"
  using rne_of_int [of 0] by simp

lemma rne_bounds: "\<lfloor>y\<rfloor> \<le> rne y \<and> rne y \<le> \<lfloor>y\<rfloor> + 1"
  by (simp add: rne_def Let_def)

lemma rne_error: "\<bar>of_int (rne y) - y\<bar> \<le> 1/2"
  unfolding rne_def Let_def by (auto; linarith)

lemma rne_mono: "x \<le> y \<Longrightarrow> rne x \<le> rne y"
proof -
  assume xy: "x \<le> y"
  then have fl: "\<lfloor>x\<rfloor> \<le> \<lfloor>y\<rfloor>" by (rule floor_mono)
  show ?thesis
  proof (cases "\<lfloor>x\<rfloor> = \<lfloor>y\<rfloor>")
    case True
    with xy have "x - of_int \<lfloor>x\<rfloor> \<le> y - of_int \<lfloor>y\<rfloor>" by simp
    with True show ?thesis unfolding rne_def Let_def by auto
  next
    case False
    with fl have "\<lfloor>x\<rfloor> + 1 \<le> \<lfloor>y\<rfloor>" by simp
    with rne_bounds [of x] rne_bounds [of y] show ?thesis by linarith
  qed
qed

lemma rne_minus: "rne (- y) = - rne y"
proof (cases "y \<in> \<int>")
  case True
  then obtain k where "y = of_int k" by (auto elim: Ints_cases)
  then have "- y = of_int (- k)" by simp
  then show ?thesis using \<open>y = of_int k\<close> by (simp only: rne_of_int)
next
  case False
  then have "y \<noteq> of_int \<lfloor>y\<rfloor>" by (metis Ints_of_int)
  then have f: "\<lfloor>- y\<rfloor> = - \<lfloor>y\<rfloor> - 1"
    by (simp add: floor_minus ceiling_altdef)
  have r: "- y - of_int (- \<lfloor>y\<rfloor> - 1) = 1 - (y - of_int \<lfloor>y\<rfloor>)" by simp
  have ev: "even (- \<lfloor>y\<rfloor> - 1) = odd \<lfloor>y\<rfloor>" by simp
  show ?thesis
    unfolding rne_def [of "- y"] rne_def [of y] Let_def f r ev
    by auto
qed

subsection \<open>Exponent\<close>

lemma powr_2_int: "(2::real) powr (of_int k) = 2 powi k"
  by (simp add: powr_real_of_int')

lemma powr_2_int1: "(2::real) powr (of_int k + 1) = 2 powi (k + 1)"
  using powr_2_int [of "k + 1"] by simp

lemma ilog2_bounds:
  assumes "x \<noteq> 0"
  shows "2 powi (ilog2 x) \<le> \<bar>x\<bar>" "\<bar>x\<bar> < 2 powi (ilog2 x + 1)"
proof -
  have pos: "0 < \<bar>x\<bar>" using assms by simp
  have "\<lfloor>log 2 \<bar>x\<bar>\<rfloor> = ilog2 x" by (simp add: ilog2_def)
  then have "2 powr (of_int (ilog2 x)) \<le> \<bar>x\<bar> \<and> \<bar>x\<bar> < 2 powr (of_int (ilog2 x) + 1)"
    using floor_log_eq_powr_iff [OF pos, of 2 "ilog2 x"] by simp
  then show "2 powi (ilog2 x) \<le> \<bar>x\<bar>" "\<bar>x\<bar> < 2 powi (ilog2 x + 1)"
    by (simp_all only: powr_2_int powr_2_int1)
qed

lemma ilog2_eqI:
  assumes "2 powi e \<le> \<bar>x\<bar>" "\<bar>x\<bar> < 2 powi (e + 1)"
  shows "ilog2 x = e"
proof -
  have "0 < (2::real) powi e" by simp
  with assms(1) have pos: "0 < \<bar>x\<bar>" by linarith
  have "2 powr (of_int e) \<le> \<bar>x\<bar> \<and> \<bar>x\<bar> < 2 powr (of_int e + 1)"
    using assms by (simp only: powr_2_int powr_2_int1)
  then show ?thesis
    unfolding ilog2_def using floor_log_eq_powr_iff [OF pos, of 2 e] by simp
qed

lemma ilog2_minus [simp]: "ilog2 (- x) = ilog2 x"
  by (simp add: ilog2_def)

lemma ilog2_mono:
  assumes "x \<noteq> 0" "\<bar>x\<bar> \<le> \<bar>y\<bar>"
  shows "ilog2 x \<le> ilog2 y"
  unfolding ilog2_def using assms by (intro floor_mono) simp

lemma ilog2_unit: "1 \<le> \<bar>x\<bar> \<Longrightarrow> \<bar>x\<bar> < 2 \<Longrightarrow> ilog2 x = 0"
  by (rule ilog2_eqI) simp_all

lemma ilog2_half: "2 \<le> \<bar>x\<bar> \<Longrightarrow> ilog2 x = ilog2 (x / 2) + 1"
proof -
  assume a: "2 \<le> \<bar>x\<bar>"
  then have nz: "x / 2 \<noteq> 0" by auto
  from ilog2_bounds [OF nz]
  have "2 powi (ilog2 (x / 2)) \<le> \<bar>x\<bar> / 2" "\<bar>x\<bar> / 2 < 2 powi (ilog2 (x / 2) + 1)" by simp_all
  then have "2 powi (ilog2 (x / 2) + 1) \<le> \<bar>x\<bar>" "\<bar>x\<bar> < 2 powi (ilog2 (x / 2) + 1 + 1)"
    by (simp_all add: power_int_add)
  then show ?thesis by (rule ilog2_eqI)
qed

lemma ilog2_double: "x \<noteq> 0 \<Longrightarrow> \<bar>x\<bar> < 1 \<Longrightarrow> ilog2 x = ilog2 (x * 2) - 1"
proof -
  assume a: "x \<noteq> 0" "\<bar>x\<bar> < 1"
  then have nz: "x * 2 \<noteq> 0" by auto
  from ilog2_bounds [OF nz]
  have "2 powi (ilog2 (x * 2)) \<le> \<bar>x\<bar> * 2" "\<bar>x\<bar> * 2 < 2 powi (ilog2 (x * 2) + 1)" by simp_all
  then have "2 powi (ilog2 (x * 2) - 1) \<le> \<bar>x\<bar>" "\<bar>x\<bar> < 2 powi (ilog2 (x * 2) - 1 + 1)"
    by (simp_all add: power_int_add power_int_diff)
  then show ?thesis by (rule ilog2_eqI)
qed

text \<open>The exponent by halving and doubling: with it \<open>fl\<close> computes on rational numbers.\<close>

lemma ilog2_0: "ilog2 0 = 0"
  by (simp add: ilog2_def log_def)

lemma ilog2_code [code]:
  "ilog2 x = (if x = 0 then 0
              else if 2 \<le> \<bar>x\<bar> then ilog2 (x / 2) + 1
              else if \<bar>x\<bar> < 1 then ilog2 (x * 2) - 1
              else 0)"
  using ilog2_unit [of x] ilog2_half [of x] ilog2_double [of x] ilog2_0 by auto

lemma expo_minus [simp]: "expo (- x) = expo x"
  by (simp add: expo_def)

lemma quantum_minus [simp]: "quantum (- x) = quantum x"
  by (simp add: quantum_def)

lemma quantum_pos [simp]: "0 < quantum x"
  by (simp add: quantum_def)

lemma quantum_nonneg [simp]: "0 \<le> quantum x"
  by (simp add: quantum_def)

lemma quantum_nz [simp]: "quantum x \<noteq> 0"
  by (simp add: quantum_def)

lemma abs_quantum [simp]: "\<bar>quantum x\<bar> = quantum x"
  by (simp add: quantum_def)

lemma expo_mono: "x \<noteq> 0 \<Longrightarrow> \<bar>x\<bar> \<le> \<bar>y\<bar> \<Longrightarrow> expo x \<le> expo y"
  using ilog2_mono [of x y] by (simp add: expo_def)

lemma expo_ge: "- 1022 \<le> expo x"
  by (simp add: expo_def)

lemma abs_less_top: "x \<noteq> 0 \<Longrightarrow> \<bar>x\<bar> < 2 powi (expo x + 1)"
proof -
  assume "x \<noteq> 0"
  then have "\<bar>x\<bar> < 2 powi (ilog2 x + 1)" by (rule ilog2_bounds)
  also have "\<dots> \<le> 2 powi (expo x + 1)"
    by (intro power_int_increasing) (simp_all add: expo_def)
  finally show ?thesis .
qed

lemma normal_ge: "x \<noteq> 0 \<Longrightarrow> - 1022 < expo x \<Longrightarrow> 2 powi (expo x) \<le> \<bar>x\<bar>"
proof -
  assume "x \<noteq> 0" "- 1022 < expo x"
  then have "expo x = ilog2 x" by (simp add: expo_def max_def split: if_splits)
  with ilog2_bounds(1) [OF \<open>x \<noteq> 0\<close>] show ?thesis by simp
qed

lemma quantum_times:
  "2 ^ 52 * quantum x = 2 powi (expo x)"
  "2 ^ 53 * quantum x = 2 powi (expo x + 1)"
proof -
  have "(2::real) powi (52 + (expo x - 52)) = 2 powi 52 * 2 powi (expo x - 52)"
    by (rule power_int_add) simp
  then show "2 ^ 52 * quantum x = 2 powi (expo x)" by (simp add: quantum_def)
  have "(2::real) powi (53 + (expo x - 52)) = 2 powi 53 * 2 powi (expo x - 52)"
    by (rule power_int_add) simp
  then show "2 ^ 53 * quantum x = 2 powi (expo x + 1)" by (simp add: quantum_def add.commute)
qed

lemma scaled_less: "x \<noteq> 0 \<Longrightarrow> \<bar>x\<bar> / quantum x < 2 ^ 53"
proof -
  assume "x \<noteq> 0"
  then have "\<bar>x\<bar> < 2 ^ 53 * quantum x"
    unfolding quantum_times by (rule abs_less_top)
  then show ?thesis by (simp only: pos_divide_less_eq quantum_pos)
qed

lemma scaled_ge: "x \<noteq> 0 \<Longrightarrow> - 1022 < expo x \<Longrightarrow> 2 ^ 52 \<le> \<bar>x\<bar> / quantum x"
proof -
  assume "x \<noteq> 0" "- 1022 < expo x"
  then have "2 ^ 52 * quantum x \<le> \<bar>x\<bar>"
    unfolding quantum_times by (rule normal_ge)
  then show ?thesis by (simp only: pos_le_divide_eq quantum_pos)
qed

subsection \<open>Rounding\<close>

lemma fl_0 [simp]: "fl 0 = 0"
  by (simp add: fl_def)

lemma fl_minus: "fl (- x) = - fl x"
  by (simp add: fl_def rne_minus)

lemma fl_nonneg: "0 \<le> x \<Longrightarrow> 0 \<le> fl x"
proof -
  assume "0 \<le> x"
  then have "0 \<le> x / quantum x" by simp
  then have "rne 0 \<le> rne (x / quantum x)" by (rule rne_mono)
  then show ?thesis by (simp add: fl_def)
qed

lemma fl_error_quantum: "\<bar>fl x - x\<bar> \<le> quantum x / 2"
proof (cases "x = 0")
  case True
  then show ?thesis by simp
next
  case False
  have "fl x - x = (of_int (rne (x / quantum x)) - x / quantum x) * quantum x"
    using False by (simp add: fl_def left_diff_distrib)
  then have "\<bar>fl x - x\<bar> = \<bar>of_int (rne (x / quantum x)) - x / quantum x\<bar> * quantum x"
    by (simp add: abs_mult)
  also have "\<dots> \<le> 1/2 * quantum x"
    by (intro mult_right_mono rne_error) simp
  finally show ?thesis by simp
qed

lemma fl_error: "\<bar>fl x - x\<bar> \<le> \<bar>x\<bar> / 2 ^ 53 + 2 powi (- 1075)"
proof (cases "x = 0")
  case True
  then show ?thesis by simp
next
  case False
  have q: "quantum x / 2 = 2 powi (expo x - 53)"
    by (simp add: quantum_def power_int_diff)
  show ?thesis
  proof (cases "- 1022 < expo x")
    case True
    from normal_ge [OF False True] have "2 powi (expo x) / 2 ^ 53 \<le> \<bar>x\<bar> / 2 ^ 53"
      by (simp add: divide_right_mono)
    then have "quantum x / 2 \<le> \<bar>x\<bar> / 2 ^ 53" unfolding q by (simp add: power_int_diff)
    moreover have "0 \<le> (2::real) powi (- 1075)" by simp
    ultimately show ?thesis using fl_error_quantum [of x] by linarith
  next
    case False
    with expo_ge [of x] have "expo x = - 1022" by simp
    then have "quantum x / 2 = 2 powi (- 1075)" unfolding q by simp
    moreover have "0 \<le> \<bar>x\<bar> / 2 ^ 53" by simp
    ultimately show ?thesis using fl_error_quantum [of x] by linarith
  qed
qed

lemma fl_exact:
  assumes "\<bar>k\<bar> < 2 ^ 53" "- 1074 \<le> e"
  shows "fl (of_int k * 2 powi e) = of_int k * 2 powi e"
proof (cases "k = 0")
  case True
  then show ?thesis by simp
next
  case False
  define x where "x = of_int k * (2::real) powi e"
  have nz: "x \<noteq> 0" using False by (simp add: x_def)
  have le: "expo x - 52 \<le> e"
  proof (rule ccontr)
    assume "\<not> expo x - 52 \<le> e"
    then have big: "e + 53 \<le> expo x" by simp
    with assms(2) have "- 1022 < expo x" by simp
    from normal_ge [OF nz this] have "2 powi (expo x) \<le> \<bar>x\<bar>" .
    moreover have "\<bar>x\<bar> < 2 powi (e + 53)"
    proof -
      have "\<bar>x\<bar> = of_int \<bar>k\<bar> * 2 powi e" by (simp add: x_def abs_mult)
      also have "\<dots> < 2 ^ 53 * 2 powi e"
      proof (intro mult_strict_right_mono)
        from assms(1) have "(of_int \<bar>k\<bar> :: real) < of_int (2 ^ 53)" by (simp only: of_int_less_iff)
        then show "(of_int \<bar>k\<bar> :: real) < 2 ^ 53" by simp
      qed simp
      also have "\<dots> = 2 powi (e + 53)" by (simp add: power_int_add)
      finally show ?thesis .
    qed
    moreover have "(2::real) powi (e + 53) \<le> 2 powi (expo x)"
      using big by (intro power_int_increasing) simp_all
    ultimately show False by linarith
  qed
  define n where "n = nat (e - (expo x - 52))"
  have e: "e = (expo x - 52) + int n" using le by (simp add: n_def)
  have "(2::real) powi (expo x - 52 + int n) = 2 powi (expo x - 52) * 2 powi (int n)"
    by (rule power_int_add) simp
  then have "(2::real) powi e = 2 ^ n * quantum x"
    using e by (simp add: quantum_def)
  then have "x = of_int k * (2 ^ n * quantum x)" by (simp only: x_def)
  moreover define q where "q = quantum x"
  ultimately have "x = of_int k * (2 ^ n * q)" "q \<noteq> 0" by simp_all
  then have "x / q = of_int (k * 2 ^ n)" by simp
  then have sc: "x / quantum x = of_int (k * 2 ^ n)" by (simp only: q_def)
  have "fl x = of_int (k * 2 ^ n) * quantum x"
    using nz unfolding fl_def sc by (simp only: rne_of_int if_False)
  also have "\<dots> = x" using sc by (simp add: field_simps)
  finally show ?thesis by (simp only: x_def)
qed

lemma fl_idem [simp]: "fl (fl x) = fl x"
proof (cases "x = 0")
  case True
  then show ?thesis by simp
next
  case False
  define m where "m = rne (x / quantum x)"
  have flx: "fl x = of_int m * 2 powi (expo x - 52)"
    using False by (simp add: fl_def m_def quantum_def)
  have "\<bar>x / quantum x\<bar> = \<bar>x\<bar> / quantum x" by simp
  with scaled_less [OF False]
  have "of_int (- (2 ^ 53)) \<le> x / quantum x" "x / quantum x \<le> of_int (2 ^ 53)"
    by (simp_all add: abs_if split: if_splits)
  then have "rne (of_int (- (2 ^ 53))) \<le> m" "m \<le> rne (of_int (2 ^ 53))"
    unfolding m_def by (simp_all only: rne_mono)
  then have m: "\<bar>m\<bar> \<le> 2 ^ 53" unfolding rne_of_int by simp
  have e: "- 1074 \<le> expo x - 52" using expo_ge [of x] by simp
  show ?thesis
  proof (cases "\<bar>m\<bar> < 2 ^ 53")
    case True
    from fl_exact [OF True e] show ?thesis by (simp add: flx)
  next
    case False
    with m have "m = 2 ^ 53 \<or> m = - (2 ^ 53)" by auto
    then have half: "m = 2 * (m div 2)" "\<bar>m div 2\<bar> < 2 ^ 53" by auto
    have p: "(2::real) powi (expo x - 51) = 2 * 2 powi (expo x - 52)"
      using power_int_add [of "2::real" 1 "expo x - 52"] by simp
    have "(of_int m :: real) = 2 * of_int (m div 2)"
      by (subst half(1)) (simp only: of_int_mult of_int_numeral)
    then have "of_int m * (2::real) powi (expo x - 52) = of_int (m div 2) * 2 powi (expo x - 51)"
      unfolding p by simp
    moreover have "- 1074 \<le> expo x - 51" using e by simp
    ultimately show ?thesis
      using fl_exact [OF \<open>\<bar>m div 2\<bar> < 2 ^ 53\<close>, of "expo x - 51"] by (simp add: flx)
  qed
qed

lemma fl_of_int: "\<bar>k\<bar> < 2 ^ 53 \<Longrightarrow> fl (of_int k) = of_int k"
  using fl_exact [of k 0] by simp

lemma fl_pos_upper:
  assumes "0 < x"
  shows "fl x \<le> 2 powi (expo x + 1)"
proof -
  from assms have nz: "x \<noteq> 0" by simp
  from scaled_less [OF nz] assms have "x / quantum x \<le> of_int (2 ^ 53)" by simp
  then have "rne (x / quantum x) \<le> rne (of_int (2 ^ 53))" by (rule rne_mono)
  then have "rne (x / quantum x) \<le> 2 ^ 53" unfolding rne_of_int .
  then have "(of_int (rne (x / quantum x)) :: real) \<le> of_int (2 ^ 53)"
    by (simp only: of_int_le_iff)
  then have "of_int (rne (x / quantum x)) * quantum x \<le> 2 ^ 53 * quantum x"
    by (intro mult_right_mono) simp_all
  then show ?thesis using nz by (simp only: fl_def quantum_times if_False)
qed

lemma fl_pos_lower:
  assumes "0 < x" "- 1022 < expo x"
  shows "2 powi (expo x) \<le> fl x"
proof -
  from assms have nz: "x \<noteq> 0" by simp
  from scaled_ge [OF nz assms(2)] assms(1) have "of_int (2 ^ 52) \<le> x / quantum x" by simp
  then have "rne (of_int (2 ^ 52)) \<le> rne (x / quantum x)" by (rule rne_mono)
  then have "2 ^ 52 \<le> rne (x / quantum x)" unfolding rne_of_int .
  then have "(of_int (2 ^ 52) :: real) \<le> of_int (rne (x / quantum x))"
    by (simp only: of_int_le_iff)
  then have "2 ^ 52 * quantum x \<le> of_int (rne (x / quantum x)) * quantum x"
    by (intro mult_right_mono) simp_all
  then show ?thesis using nz by (simp only: fl_def quantum_times if_False)
qed

lemma fl_mono_pos:
  assumes "0 < x" "x \<le> y"
  shows "fl x \<le> fl y"
proof -
  from assms have nz: "x \<noteq> 0" "y \<noteq> 0" "0 < y" by simp_all
  from assms have e: "expo x \<le> expo y" by (intro expo_mono) simp_all
  show ?thesis
  proof (cases "expo x = expo y")
    case True
    then have q: "quantum x = quantum y" by (simp add: quantum_def)
    from assms(2) have "x / quantum y \<le> y / quantum y" by (simp add: divide_right_mono)
    then have "rne (x / quantum y) \<le> rne (y / quantum y)" by (rule rne_mono)
    then have "(of_int (rne (x / quantum y)) :: real) \<le> of_int (rne (y / quantum y))"
      by (simp only: of_int_le_iff)
    then have "of_int (rne (x / quantum y)) * quantum y \<le> of_int (rne (y / quantum y)) * quantum y"
      by (intro mult_right_mono) simp_all
    then show ?thesis using nz by (simp add: fl_def q)
  next
    case False
    with e have lt: "expo x + 1 \<le> expo y" by simp
    with expo_ge [of x] have n: "- 1022 < expo y" by simp
    have "fl x \<le> 2 powi (expo x + 1)" using assms(1) by (rule fl_pos_upper)
    also have "\<dots> \<le> 2 powi (expo y)" using lt by (intro power_int_increasing) simp_all
    also have "\<dots> \<le> fl y" using nz(3) n by (rule fl_pos_lower)
    finally show ?thesis .
  qed
qed

lemma fl_mono: "x \<le> y \<Longrightarrow> fl x \<le> fl y"
proof -
  assume xy: "x \<le> y"
  consider (pos) "0 < x" | (neg) "y < 0" | (mid) "x \<le> 0" "0 \<le> y" by linarith
  then show ?thesis
  proof cases
    case pos
    then show ?thesis using xy by (rule fl_mono_pos)
  next
    case neg
    with xy have "0 < - y" "- y \<le> - x" by simp_all
    then have "fl (- y) \<le> fl (- x)" by (rule fl_mono_pos)
    then show ?thesis by (simp add: fl_minus)
  next
    case mid
    from mid(1) have "0 \<le> fl (- x)" by (intro fl_nonneg) simp
    then have "fl x \<le> 0" by (simp add: fl_minus)
    also have "0 \<le> fl y" using mid(2) by (rule fl_nonneg)
    finally show ?thesis .
  qed
qed

lemma fl_error_coarse:
  assumes "\<bar>x\<bar> \<le> B" "2 powi (- 1022) \<le> B"
  shows "\<bar>fl x - x\<bar> \<le> B / 2 ^ 53"
proof (cases "x = 0")
  case True
  with assms show ?thesis by simp
next
  case False
  have q: "quantum x / 2 = 2 powi (expo x) / 2 ^ 53"
    unfolding quantum_times(2) [symmetric] quantum_times(1) [symmetric] by simp
  have "2 powi (expo x) \<le> B"
  proof (cases "- 1022 < expo x")
    case True
    from normal_ge [OF False True] assms(1) show ?thesis by simp
  next
    case False
    with expo_ge [of x] have "expo x = - 1022" by simp
    with assms(2) show ?thesis by simp
  qed
  then have "quantum x / 2 \<le> B / 2 ^ 53" unfolding q by (simp add: divide_right_mono)
  with fl_error_quantum [of x] show ?thesis by linarith
qed

lemma fl_1 [simp]: "fl 1 = 1" using fl_of_int [of 1] by simp
lemma fl_2 [simp]: "fl 2 = 2" using fl_of_int [of 2] by simp
lemma fl_m1 [simp]: "fl (- 1) = - 1" using fl_minus [of 1] by simp

text \<open>The rules that evaluate \<open>fl\<close> at a rational number.\<close>

lemmas fl_eval = fl_def quantum_def expo_def ilog2_unit ilog2_half ilog2_double rne_def Let_def

lemma slack_nonneg: "0 \<le> m \<Longrightarrow> 0 \<le> slack m"
  by (simp add: slack_def)

lemma tiny_le_1: "(2::real) powi (- 1022) \<le> 1"
proof -
  have "(2::real) powi (- 1022) \<le> 2 powi 0" by (rule power_int_increasing) simp_all
  then show ?thesis by simp
qed

text \<open>
  \<^verbatim>\<open>w * (b - a) + a\<close> for a weight \<open>w\<close> in \<open>[0, 1]\<close>: rounding is monotone, so the result
  lies between \<open>a\<close> and the value at \<open>w = 1\<close>, which is \<open>fl (fl (b - a) + a)\<close> and not
  always \<open>b\<close>.
\<close>

lemma lerp_between:
  assumes "0 \<le> w" "w \<le> 1" "fl a = a"
  shows "min a (fl (fl (b - a) + a)) \<le> fl (fl (w * fl (b - a)) + a)"
    and "fl (fl (w * fl (b - a)) + a) \<le> max a (fl (fl (b - a) + a))"
proof -
  define D where "D = fl (b - a)"
  have D: "fl D = D" by (simp add: D_def)
  have "min a (fl (D + a)) \<le> fl (fl (w * D) + a) \<and> fl (fl (w * D) + a) \<le> max a (fl (D + a))"
  proof (cases "0 \<le> D")
    case True
    with assms have "0 \<le> w * D" "w * D \<le> D" by (simp_all add: mult_left_le_one_le)
    from fl_mono [OF this(1)] fl_mono [OF this(2)] have "0 \<le> fl (w * D)" "fl (w * D) \<le> D"
      by (simp_all add: D)
    then have "a \<le> fl (w * D) + a" "fl (w * D) + a \<le> D + a" by simp_all
    from fl_mono [OF this(1)] fl_mono [OF this(2)] show ?thesis
      by (simp add: assms(3))
  next
    case False
    then have neg: "D \<le> 0" by simp
    with assms have "w * D \<le> 0" "(1 - w) * D \<le> 0" by (simp_all add: mult_nonneg_nonpos)
    then have "D \<le> w * D" "w * D \<le> 0" by (simp_all add: algebra_simps)
    from fl_mono [OF this(1)] fl_mono [OF this(2)] have "D \<le> fl (w * D)" "fl (w * D) \<le> 0"
      by (simp_all add: D)
    then have "D + a \<le> fl (w * D) + a" "fl (w * D) + a \<le> a" by simp_all
    from fl_mono [OF this(1)] fl_mono [OF this(2)] show ?thesis
      by (simp add: assms(3))
  qed
  then show "min a (fl (fl (b - a) + a)) \<le> fl (fl (w * fl (b - a)) + a)"
    and "fl (fl (w * fl (b - a)) + a) \<le> max a (fl (fl (b - a) + a))"
    by (simp_all add: D_def)
qed

lemma far_end_error:
  "\<bar>fl (fl (b - a) + a) - b\<bar> \<le> slack (\<bar>a\<bar> + \<bar>b\<bar>)"
proof -
  define t0 :: real where "t0 = 2 powi (- 1075)"
  define D where "D = fl (b - a)"
  have t0: "0 \<le> t0" "4 * t0 = 2 powi (- 1073)" by (simp_all add: t0_def)
  have e1: "\<bar>D - (b - a)\<bar> \<le> \<bar>b - a\<bar> / 2 ^ 53 + t0"
    unfolding D_def t0_def by (rule fl_error)
  have e2: "\<bar>fl (D + a) - (D + a)\<bar> \<le> \<bar>D + a\<bar> / 2 ^ 53 + t0"
    unfolding t0_def by (rule fl_error)
  have ba: "\<bar>b - a\<bar> \<le> \<bar>a\<bar> + \<bar>b\<bar>" by simp
  have s1: "\<bar>b - a\<bar> / 2 ^ 53 \<le> (\<bar>a\<bar> + \<bar>b\<bar>) / 2 ^ 53"
    using ba by (simp add: divide_right_mono)
  have d1: "\<bar>D + a - b\<bar> \<le> (\<bar>a\<bar> + \<bar>b\<bar>) / 2 ^ 53 + t0" using e1 s1 by linarith
  have "\<bar>D + a\<bar> \<le> \<bar>b\<bar> + ((\<bar>a\<bar> + \<bar>b\<bar>) / 2 ^ 53 + t0)" using d1 by linarith
  also have "\<dots> \<le> 2 * (\<bar>a\<bar> + \<bar>b\<bar>) + t0"
  proof -
    have "(\<bar>a\<bar> + \<bar>b\<bar>) / 2 ^ 53 \<le> (\<bar>a\<bar> + \<bar>b\<bar>) / 1"
      by (intro divide_left_mono) simp_all
    then show ?thesis by simp
  qed
  finally have "\<bar>D + a\<bar> / 2 ^ 53 \<le> (2 * (\<bar>a\<bar> + \<bar>b\<bar>) + t0) / 2 ^ 53"
    by (simp add: divide_right_mono)
  also have "\<dots> = 2 * (\<bar>a\<bar> + \<bar>b\<bar>) / 2 ^ 53 + t0 / 2 ^ 53" by (simp add: add_divide_distrib)
  also have "\<dots> \<le> 2 * (\<bar>a\<bar> + \<bar>b\<bar>) / 2 ^ 53 + t0"
  proof -
    have "t0 / 2 ^ 53 \<le> t0 / 1" using t0(1) by (intro divide_left_mono) simp_all
    then show ?thesis by simp
  qed
  finally have s2: "\<bar>D + a\<bar> / 2 ^ 53 \<le> 2 * (\<bar>a\<bar> + \<bar>b\<bar>) / 2 ^ 53 + t0" .
  have "\<bar>fl (D + a) - b\<bar> \<le> 3 * ((\<bar>a\<bar> + \<bar>b\<bar>) / 2 ^ 53) + 3 * t0"
    using e2 s2 d1 by linarith
  also have "\<dots> \<le> (\<bar>a\<bar> + \<bar>b\<bar>) / 2 ^ 51 + 4 * t0"
  proof -
    have "(\<bar>a\<bar> + \<bar>b\<bar>) / 2 ^ 51 = 4 * ((\<bar>a\<bar> + \<bar>b\<bar>) / 2 ^ 53)" by simp
    moreover have "0 \<le> (\<bar>a\<bar> + \<bar>b\<bar>) / 2 ^ 53" by simp
    ultimately show ?thesis using t0(1) by linarith
  qed
  finally show ?thesis unfolding D_def t0(2) slack_def .
qed

section \<open>Properties of the utilities\<close>






text \<open>
  The correctly rounded cosine has its values in \<open>[-1, 1]\<close>, and at \<^verbatim>\<open>Math.PI\<close> it is
  \<open>-1\<close>: \<^verbatim>\<open>Math.PI\<close> is within \<open>2^-51\<close> of \<open>\<pi>\<close>, where the cosine is within \<open>2^-103\<close>
  of \<open>-1\<close>. So the weight \<^verbatim>\<open>(1-cos(PI*t))/2\<close> is in \<open>[0, 1]\<close>, and it is 1 at \<open>t = 1\<close>.
\<close>

lemma cos_b64_range: "- 1 \<le> cos_b64 x \<and> cos_b64 x \<le> 1"
proof -
  have "fl (- 1) \<le> fl (cos x)" "fl (cos x) \<le> fl 1"
    by (intro fl_mono; simp)+
  then show ?thesis by (simp add: cos_b64_def)
qed

lemma cos_near_pi:
  assumes "\<bar>d\<bar> \<le> 1 / 2 ^ 51"
  shows "- 1 \<le> cos (pi + d)" "cos (pi + d) \<le> - 1 + 1 / 2 ^ 103"
proof -
  show "- 1 \<le> cos (pi + d)" by simp
  have "1 - cos d = 2 * (sin (d / 2))\<^sup>2"
    using cos_double_sin [of "d / 2"] by simp
  also have "\<dots> \<le> 2 * (\<bar>d / 2\<bar>)\<^sup>2"
    using abs_sin_x_le_abs_x [of "d / 2"]
    by (intro mult_left_mono) (simp_all add: abs_le_square_iff [symmetric])
  also have "\<dots> = d\<^sup>2 / 2" by (simp add: power2_eq_square)
  also have "\<dots> \<le> (1 / 2 ^ 51)\<^sup>2 / 2"
    using assms by (intro divide_right_mono) (simp_all add: abs_le_square_iff [symmetric])
  also have "\<dots> = 1 / 2 ^ 103" by (simp add: power2_eq_square)
  finally show "cos (pi + d) \<le> - 1 + 1 / 2 ^ 103" by simp
qed

lemma cos_b64_Math_PI: "cos_b64 (fl (Math_PI * 1)) = - 1"
proof -
  have "\<bar>pi\<bar> \<le> 4" using pi_less_4 pi_gt_zero by simp
  then have "\<bar>fl pi - pi\<bar> \<le> 4 / 2 ^ 53" by (rule fl_error_coarse) simp
  then have d: "\<bar>fl pi - pi\<bar> \<le> 1 / 2 ^ 51" by simp
  from cos_near_pi [OF d] have c: "- 1 \<le> cos (fl pi)" "cos (fl pi) \<le> - 1 + 1 / 2 ^ 103"
    by simp_all
  have "fl (- 1 + 1 / 2 ^ 103) = - 1"
    by (simp add: fl_eval)
  with fl_mono [OF c(1)] fl_mono [OF c(2)] have "fl (cos (fl pi)) = - 1" by simp
  then show ?thesis by (simp add: cos_b64_def Math_PI_def)
qed

lemma weight_range:
  assumes "- 1 \<le> c" "c \<le> 1"
  shows "0 \<le> fl (fl (1 - c) / 2)" "fl (fl (1 - c) / 2) \<le> 1"
proof -
  from assms have "fl 0 \<le> fl (1 - c)" "fl (1 - c) \<le> fl 2" by (intro fl_mono; simp)+
  then have r: "0 \<le> fl (1 - c) / 2" "fl (1 - c) / 2 \<le> 1" by simp_all
  from fl_mono [OF r(1)] fl_mono [OF r(2)]
  show "0 \<le> fl (fl (1 - c) / 2)" "fl (fl (1 - c) / 2) \<le> 1" by simp_all
qed

text \<open>
  C10, as the claim states it, is false of the code. At \<open>t = 1\<close> the weight is 1 and
  the result is \<^verbatim>\<open>(b-a) + a\<close>, which is not always \<open>b\<close>: for \<open>a = 0.7\<close>, \<open>b = 0.1\<close> it is
  \<open>0.09999999999999998\<close>, below \<open>min a b\<close>, and for \<open>a = 0.3\<close>, \<open>b = 0.9\<close> it is
  \<open>0.9000000000000001\<close>, above \<open>max a b\<close>.
\<close>

theorem interpolation_b64_leaves_range:
  "interpolation_b64 cos_b64 (fl (7/10)) (fl (1/10)) 1 = 900719925474099 / 9007199254740992
   \<and> min (fl (7/10)) (fl (1/10)) = 3602879701896397 / 36028797018963968
   \<and> interpolation_b64 cos_b64 (fl (7/10)) (fl (1/10)) 1 < min (fl (7/10)) (fl (1/10))
   \<and> interpolation_b64 cos_b64 (fl (3/10)) (fl (9/10)) 1 = 4053239664633447 / 4503599627370496
   \<and> max (fl (3/10)) (fl (9/10)) = 8106479329266893 / 9007199254740992
   \<and> max (fl (3/10)) (fl (9/10)) < interpolation_b64 cos_b64 (fl (3/10)) (fl (9/10)) 1"
proof -
  have w: "fl (fl (1 - cos_b64 (fl (Math_PI * 1))) / 2) = 1"
    by (simp only: cos_b64_Math_PI) simp
  have i1: "interpolation_b64 cos_b64 (fl (7/10)) (fl (1/10)) 1 = 900719925474099 / 9007199254740992"
    unfolding interpolation_b64_def w by (simp add: fl_eval)
  have i2: "interpolation_b64 cos_b64 (fl (3/10)) (fl (9/10)) 1 = 4053239664633447 / 4503599627370496"
    unfolding interpolation_b64_def w by (simp add: fl_eval)
  have m1: "min (fl (7/10)) (fl (1/10)) = 3602879701896397 / 36028797018963968"
    by (simp add: fl_eval)
  have m2: "max (fl (3/10)) (fl (9/10)) = 8106479329266893 / 9007199254740992"
    by (simp add: fl_eval)
  show ?thesis unfolding i1 i2 m1 m2 by simp
qed

text \<open>
  C10 (amended): let \<open>a\<close> be a double, \<open>a\<close> and \<open>b\<close> of size at most \<open>2^1022\<close>, \<open>t\<close> in
  \<open>[0, 1]\<close>, and let \<^verbatim>\<open>Math.cos\<close> return values in \<open>[-1, 1]\<close>. The interpolated value lies
  between \<open>a\<close> and the value \<open>fl (fl (b - a) + a)\<close> at weight 1, both included; this
  value is \<open>b\<close> up to \<open>slack (\<bar>a\<bar> + \<bar>b\<bar>)\<close>, so the interpolated value leaves the range
  from \<open>min a b\<close> to \<open>max a b\<close> by at most that much.
\<close>

theorem interpolation_b64_bounds:
  assumes "\<forall>x. - 1 \<le> mcos x \<and> mcos x \<le> 1" "fl a = a"
    and "\<bar>a\<bar> \<le> 2 ^ 1022" "\<bar>b\<bar> \<le> 2 ^ 1022" "0 \<le> t" "t \<le> 1"
  shows "min a (fl (fl (b - a) + a)) \<le> interpolation_b64 mcos a b t
       \<and> interpolation_b64 mcos a b t \<le> max a (fl (fl (b - a) + a))
       \<and> \<bar>fl (fl (b - a) + a) - b\<bar> \<le> slack (\<bar>a\<bar> + \<bar>b\<bar>)
       \<and> min a b - slack (\<bar>a\<bar> + \<bar>b\<bar>) \<le> interpolation_b64 mcos a b t
       \<and> interpolation_b64 mcos a b t \<le> max a b + slack (\<bar>a\<bar> + \<bar>b\<bar>)"
proof -
  define w where "w = fl (fl (1 - mcos (fl (Math_PI * t))) / 2)"
  define v where "v = interpolation_b64 mcos a b t"
  define far where "far = fl (fl (b - a) + a)"
  define e where "e = slack (\<bar>a\<bar> + \<bar>b\<bar>)"
  have v: "v = fl (fl (w * fl (b - a)) + a)" by (simp add: v_def interpolation_b64_def w_def)
  from assms(1) have "- 1 \<le> mcos (fl (Math_PI * t))" "mcos (fl (Math_PI * t)) \<le> 1" by simp_all
  from weight_range [OF this] have w: "0 \<le> w" "w \<le> 1" by (simp_all add: w_def)
  from lerp_between [OF w assms(2), of b] have lh: "min a far \<le> v" "v \<le> max a far"
    by (simp_all add: v far_def)
  have err: "\<bar>far - b\<bar> \<le> e" unfolding far_def e_def by (rule far_end_error)
  have e0: "0 \<le> e" unfolding e_def by (rule slack_nonneg) simp
  have lo: "min a b - e \<le> v" using lh(1) err e0 by (simp add: min_def abs_le_iff split: if_splits)
  have hi: "v \<le> max a b + e" using lh(2) err e0 by (simp add: max_def abs_le_iff split: if_splits)
  from lh err lo hi show ?thesis unfolding v_def far_def e_def by simp
qed

theorem interpolation_b64_bounds_witness:
  "1 \<le> interpolation_b64 cos_b64 1 3 (1/2) \<and> interpolation_b64 cos_b64 1 3 (1/2) \<le> 3
   \<and> interpolation_b64 cos_b64 (fl (3/10)) (fl (9/10)) 1 \<le> fl (9/10) + 1 / 2 ^ 50"
proof -
  have r: "\<forall>x. - 1 \<le> cos_b64 x \<and> cos_b64 x \<le> 1" using cos_b64_range by blast
  have f: "fl (fl (3 - 1) + 1) = 3" by (simp add: fl_eval)
  have s: "fl (3/10) = 5404319552844595 / 18014398509481984"
    "fl (9/10) = 8106479329266893 / 9007199254740992"
    by (simp_all add: fl_eval)
  have h: "\<bar>fl (3/10)\<bar> \<le> 2 ^ 1022" "\<bar>fl (9/10)\<bar> \<le> 2 ^ 1022" unfolding s by simp_all
  from interpolation_b64_bounds [OF r, of 1 3 "1/2"] f
  have a: "1 \<le> interpolation_b64 cos_b64 1 3 (1/2)" "interpolation_b64 cos_b64 1 3 (1/2) \<le> 3"
    by simp_all
  from interpolation_b64_bounds [OF r fl_idem h, of 1]
  have "interpolation_b64 cos_b64 (fl (3/10)) (fl (9/10)) 1
      \<le> max (fl (3/10)) (fl (9/10)) + slack (\<bar>fl (3/10)\<bar> + \<bar>fl (9/10)\<bar>)"
    by simp
  also have "\<dots> \<le> fl (9/10) + 1 / 2 ^ 50" unfolding s by (simp add: slack_def)
  finally show ?thesis using a by simp
qed

section \<open>Properties of the canvas confetti\<close>

lemma applyDrag_fields [simp]:
  "finalSpeedX (applyDrag d p) = finalSpeedX p"
  "radius_y (applyDrag d p) = radius_y p"
  "initialRadius (applyDrag d p) = initialRadius p"
  "initialPosition_y (applyDrag d p) = initialPosition_y p"
  "speed_y (applyDrag d p) = speed_y p"
  "absSin (applyDrag d p) = absSin p"
  "createdAt (applyDrag d p) = createdAt p"
  by (simp_all add: applyDrag_def)

lemma movePosition_fields [simp]:
  "speed_x (movePosition d e p) = speed_x p"
  "finalSpeedX (movePosition d e p) = finalSpeedX p"
  "radius_y (movePosition d e p) = radius_y p"
  "initialRadius (movePosition d e p) = initialRadius p"
  "position_y (movePosition d e p) =
     initialPosition_y p - speed_y p * absSin p * e + (125/100000) * e ^ 2 / 2"
  by (simp_all add: movePosition_def)

lemma flutter_fields [simp]:
  "speed_x (flutter d p) = speed_x p"
  "finalSpeedX (flutter d p) = finalSpeedX p"
  "initialRadius (flutter d p) = initialRadius p"
  "position_y (flutter d p) = position_y p"
  by (simp_all add: flutter_def Let_def)

lemma flutter_radius_bounds:
  assumes "0 \<le> d" "0 \<le> radius_y p" "radius_y p \<le> initialRadius p"
  shows "0 \<le> radius_y (flutter d p) \<and> radius_y (flutter d p) \<le> initialRadius p"
proof -
  define rs where "rs = max (rotationSpeed p - (1/100000) * d) 0"
  have "0 \<le> rs" by (simp add: rs_def)
  with assms(1) have step: "0 \<le> d * rs" by simp
  show ?thesis
    using assms step unfolding flutter_def Let_def rs_def [symmetric]
    by (auto simp: not_le)
qed

lemma updatePosition_radius_bounds:
  assumes "0 \<le> d" "0 \<le> radius_y p" "radius_y p \<le> initialRadius p"
  shows "0 \<le> radius_y (updatePosition d now p)
       \<and> radius_y (updatePosition d now p) \<le> initialRadius (updatePosition d now p)
       \<and> initialRadius (updatePosition d now p) = initialRadius p"
  using flutter_radius_bounds [of d "movePosition d (now - createdAt p) (applyDrag d p)"] assms
  by (simp add: updatePosition_def Let_def)

text \<open>
  C6: \<^verbatim>\<open>radius.y\<close> stays within \<open>[0, initialRadius]\<close> after every call of a sequence of
  \<^verbatim>\<open>updatePosition\<close> calls with \<open>deltaTime \<ge> 0\<close>, from any particle that starts within
  these bounds (the constructor starts it at \<open>initialRadius\<close>); \<open>initialRadius\<close> itself
  never changes. The list \<open>calls\<close> is arbitrary, so the bound holds after each call.
\<close>

theorem radius_y_bounded:
  assumes "0 \<le> radius_y p" "radius_y p \<le> initialRadius p"
    and "\<forall>c \<in> set calls. 0 \<le> fst c"
  shows "0 \<le> radius_y (updatePositions calls p)
       \<and> radius_y (updatePositions calls p) \<le> initialRadius p
       \<and> initialRadius (updatePositions calls p) = initialRadius p"
  using assms
proof (induction calls arbitrary: p)
  case Nil
  then show ?case by simp
next
  case (Cons c calls)
  obtain d now where c: "c = (d, now)" by (cases c)
  from Cons.prems c have d: "0 \<le> d" by simp
  note step = updatePosition_radius_bounds [OF d Cons.prems(1,2), of now]
  from Cons.prems(3) have rest: "\<forall>c \<in> set calls. 0 \<le> fst c" by simp
  from Cons.IH [of "updatePosition d now p"] step rest
  show ?case by (simp add: c)
qed

text \<open>
  C4: \<^verbatim>\<open>updatePosition\<close> sets \<^verbatim>\<open>position.y\<close> to
  \<open>initialPosition.y - speed.y * absSin * elapsed + 0.000625 * elapsed^2\<close> with
  \<open>elapsed = now - createdAt\<close>; the old value of \<^verbatim>\<open>position.y\<close> plays no part.
\<close>

theorem position_y_closed_form:
  "position_y (updatePosition deltaTime now p) =
     initialPosition_y p - speed_y p * absSin p * (now - createdAt p)
       + (625/1000000) * (now - createdAt p) ^ 2
   \<and> position_y (updatePosition deltaTime now (p\<lparr>position_y := y0\<rparr>)) =
       position_y (updatePosition deltaTime now p)"
  by (simp add: updatePosition_def Let_def applyDrag_def movePosition_def flutter_def)

lemma addConfetti_loop_eq:
  "addConfetti_loop cfg w y i calls =
     calls @ concat (replicate (nat ((confettiesNumber cfg + 1) div 2 - i))
                       [edgeArgs cfg 0 y Right, edgeArgs cfg w y Left])"
proof (induction cfg w y i calls rule: addConfetti_loop.induct)
  case (1 cfg w y i calls)
  let ?k = "(confettiesNumber cfg + 1) div 2"
  have cond: "((of_int i :: real) < of_int (confettiesNumber cfg) / 2) = (i < ?k)"
  proof -
    have "((of_int i :: real) < of_int (confettiesNumber cfg) / 2)
        = ((of_int (2 * i) :: real) < of_int (confettiesNumber cfg))" by auto
    also have "\<dots> = (2 * i < confettiesNumber cfg)" by (simp only: of_int_less_iff)
    also have "\<dots> = (i < ?k)" by presburger
    finally show ?thesis .
  qed
  show ?case
  proof (cases "i < ?k")
    case True
    then have "nat (?k - i) = Suc (nat (?k - (i + 1)))" by simp
    with True 1 cond show ?thesis
      by (subst addConfetti_loop.simps) simp
  next
    case False
    with cond show ?thesis by (subst addConfetti_loop.simps) simp
  qed
qed

lemma addConfetti_calls_eq:
  "addConfetti_calls config w h =
     concat (replicate (nat ((confettiesNumber (mergeConfig config) + 1) div 2))
       [edgeArgs (mergeConfig config) 0 (5 * h / 7) Right,
        edgeArgs (mergeConfig config) w (5 * h / 7) Left])"
  by (simp add: addConfetti_calls_def Let_def addConfetti_loop_eq)

lemma count_list_concat_replicate:
  "count_list (concat (replicate n xs)) a = n * count_list xs a"
  by (induction n) simp_all

lemma length_concat_replicate_pair:
  "length (concat (replicate n [x, y])) = 2 * n"
  by (induction n) simp_all

lemma map_concat_replicate_pair:
  "map f (concat (replicate n [x, y])) = concat (replicate n [f x, f y])"
  by (induction n) simp_all

lemma map_direction_Confetti_new:
  "map (\<lambda>(k, a). direction (Confetti_new a (envs k))) (enumerate m calls) = map arg_direction calls"
  by (induction calls arbitrary: m) (simp_all add: Confetti_new_def Let_def)

text \<open>
  C3 (amended): \<^verbatim>\<open>addConfetti\<close> appends one particle per constructor call; the calls come in
  pairs, \<open>\<lceil>count / 2\<rceil>\<close> pairs (none for a negative count), each pair one call with
  direction right from \<open>x = 0\<close> and one with direction left from \<open>x = innerWidth\<close>, both
  at \<open>y = 5 * innerHeight / 7\<close>. For an even count that is not negative this is exactly
  \<open>count\<close> particles, \<open>count / 2\<close> per edge.
\<close>

theorem addConfetti_burst:
  fixes config w h
  defines "calls \<equiv> addConfetti_calls config w h"
    and "count \<equiv> confettiesNumber (mergeConfig config)"
  shows "length (addConfetti config w h envs confetti) = length confetti + length calls
       \<and> take (length confetti) (addConfetti config w h envs confetti) = confetti
       \<and> map direction (drop (length confetti) (addConfetti config w h envs confetti))
           = map arg_direction calls
       \<and> length calls = 2 * nat ((count + 1) div 2)
       \<and> count_list (map arg_direction calls) Right = nat ((count + 1) div 2)
       \<and> count_list (map arg_direction calls) Left = nat ((count + 1) div 2)
       \<and> (\<forall>a \<in> set calls.
             arg_initialPosition_y a = 5 * h / 7
           \<and> arg_initialPosition_x a = (if arg_direction a = Right then 0 else w))
       \<and> (0 \<le> count \<and> even count \<longrightarrow>
             int (length calls) = count
           \<and> 2 * int (count_list (map arg_direction calls) Right) = count
           \<and> 2 * int (count_list (map arg_direction calls) Left) = count)"
proof -
  let ?n = "nat ((count + 1) div 2)"
  let ?pair = "[edgeArgs (mergeConfig config) 0 (5 * h / 7) Right,
                edgeArgs (mergeConfig config) w (5 * h / 7) Left]"
  have calls: "calls = concat (replicate ?n ?pair)"
    by (simp add: calls_def count_def addConfetti_calls_eq)
  have len: "length calls = 2 * ?n"
    unfolding calls by (rule length_concat_replicate_pair)
  have dirs: "map arg_direction calls = concat (replicate ?n [Right, Left])"
    unfolding calls by (simp add: map_concat_replicate_pair edgeArgs_def)
  have r: "count_list (map arg_direction calls) Right = ?n"
    unfolding dirs by (simp add: count_list_concat_replicate)
  have l: "count_list (map arg_direction calls) Left = ?n"
    unfolding dirs by (simp add: count_list_concat_replicate)
  have pos: "\<forall>a \<in> set calls. arg_initialPosition_y a = 5 * h / 7
           \<and> arg_initialPosition_x a = (if arg_direction a = Right then 0 else w)"
    unfolding calls by (auto simp: edgeArgs_def split: if_splits)
  have ev: "0 \<le> count \<and> even count \<longrightarrow> 2 * int ?n = count"
    by (auto elim!: evenE)
  have a1: "length (addConfetti config w h envs confetti) = length confetti + length calls"
    by (simp add: addConfetti_def calls_def)
  have a2: "take (length confetti) (addConfetti config w h envs confetti) = confetti"
    by (simp add: addConfetti_def)
  have a3: "map direction (drop (length confetti) (addConfetti config w h envs confetti))
           = map arg_direction calls"
    using map_direction_Confetti_new [of envs 0 calls]
    by (simp add: addConfetti_def calls_def case_prod_unfold comp_def)
  from a1 a2 a3 len r l pos ev show ?thesis by simp
qed

text \<open>
  C3, as the claim states it, is false for an odd count: the default configuration
  asks for 295 particles and the loop makes 148 pairs, 296 particles.
\<close>

theorem addConfetti_default_count:
  "confettiesNumber (mergeConfig emptyConfig) = 295
   \<and> length (addConfetti_calls emptyConfig 1920 1080) = 296
   \<and> count_list (map arg_direction (addConfetti_calls emptyConfig 1920 1080)) Right = 148"
proof -
  have n: "nat ((confettiesNumber (mergeConfig emptyConfig) + 1) div 2) = 148"
    by (simp add: mergeConfig_def emptyConfig_def defaultConfettiConfig_def)
  have c: "confettiesNumber (mergeConfig emptyConfig) = 295"
    by (simp add: mergeConfig_def emptyConfig_def defaultConfettiConfig_def)
  show ?thesis
    unfolding addConfetti_calls_eq n
    by (simp only: c length_concat_replicate_pair map_concat_replicate_pair
          count_list_concat_replicate) (simp add: edgeArgs_def)
qed

lemma Confetti_new_fields [simp]:
  "radius_y (Confetti_new a e) = arg_radius a"
  "initialRadius (Confetti_new a e) = arg_radius a"
  "direction (Confetti_new a e) = arg_direction a"
  "radiusYDirection (Confetti_new a e) = Down"
  "speed_x (Confetti_new a e)
     = getRandomInRange (u_speed e) (9/10) (17/10) 3 * getScaleFactor (env_innerWidth e)"
  "finalSpeedX (Confetti_new a e) = getRandomInRange (u_finalSpeedX e) (2/10) (6/10) 3"
  "dragCoefficient (Confetti_new a e)
     = getRandomInRange (u_dragCoefficient e) (5/10000) (9/10000) 6"
  by (simp_all add: Confetti_new_def Let_def)

lemma updatePosition_speed_x:
  "speed_x (updatePosition d now p) =
     (if speed_x p > finalSpeedX p then speed_x p - dragCoefficient p * d else speed_x p)"
  "finalSpeedX (updatePosition d now p) = finalSpeedX p"
  "dragCoefficient (updatePosition d now p) = dragCoefficient p"
  by (simp_all add: updatePosition_def Let_def applyDrag_def movePosition_def flutter_def)

lemma updatePositions_speed_x:
  "speed_x p = v \<Longrightarrow> finalSpeedX p = f \<Longrightarrow> dragCoefficient p = g \<Longrightarrow> 0 \<le> g \<Longrightarrow>
   f < v - real n * (g * 16) + g * 16 \<Longrightarrow>
   speed_x (updatePositions (replicate n (16, t)) p) = v - real n * (g * 16)"
proof (induction n arbitrary: p v)
  case 0
  then show ?case by simp
next
  case (Suc n)
  have nn: "0 \<le> real n * (g * 16)" using Suc.prems(4) by simp
  from Suc.prems(5) have "f < v - real n * (g * 16)" by (simp add: algebra_simps)
  with nn have fv: "f < v" by linarith
  with Suc.prems have s: "speed_x (updatePosition 16 t p) = v - g * 16"
    by (simp add: updatePosition_speed_x)
  have "f < (v - g * 16) - real n * (g * 16) + g * 16"
    using Suc.prems(5) by (simp add: algebra_simps)
  from Suc.IH [OF s _ _ Suc.prems(4) this] Suc.prems(2,3) show ?case
    by (simp add: updatePosition_speed_x algebra_simps)
qed

text \<open>
  C2: the drag is subtracted whole whenever \<^verbatim>\<open>speed.x\<close> is above \<^verbatim>\<open>finalSpeedX\<close>, with no
  clamp. A particle built by the constructor with \<^verbatim>\<open>speed.x = 1\<close>, \<^verbatim>\<open>finalSpeedX = 0.5\<close>
  and \<^verbatim>\<open>dragCoefficient = 0.0005\<close> has \<^verbatim>\<open>speed.x = 0\<close> after one call with
  \<open>deltaTime = 2000\<close>, and \<^verbatim>\<open>speed.x = 0.496\<close> after 63 calls with \<open>deltaTime = 16\<close>:
  below the floor both times.
\<close>

theorem speed_x_undershoots:
  "speed_x sampleConfetti = 1
   \<and> finalSpeedX sampleConfetti = 1/2
   \<and> speed_x (updatePosition 2000 2000 sampleConfetti) = 0
   \<and> finalSpeedX (updatePosition 2000 2000 sampleConfetti) = 1/2
   \<and> speed_x (updatePositions (replicate 63 (16, 0)) sampleConfetti) = 62/125"
  using updatePositions_speed_x [of sampleConfetti 1 "1/2" "1/2000" 63 0]
  by (simp add: updatePosition_speed_x getRandomInRange_def randomValue_def getScaleFactor_def)

theorem radius_y_bounded_witness:
  "radius_y sampleConfetti = 5
   \<and> initialRadius sampleConfetti = 5
   \<and> 0 \<le> radius_y (updatePositions [(16, 16), (16, 32), (2000, 2032)] sampleConfetti)
   \<and> radius_y (updatePositions [(16, 16), (16, 32), (2000, 2032)] sampleConfetti) \<le> 5"
  using radius_y_bounded [of sampleConfetti "[(16, 16), (16, 32), (2000, 2032)]"]
  by (simp add: edgeArgs_def defaultConfettiConfig_def)

theorem addConfetti_burst_witness:
  "length (addConfetti_calls config100 1920 1080) = 100
   \<and> count_list (map arg_direction (addConfetti_calls config100 1920 1080)) Right = 50
   \<and> count_list (map arg_direction (addConfetti_calls config100 1920 1080)) Left = 50"
  using addConfetti_burst [where config = "config100"
       and w = 1920 and h = 1080 and confetti = "[]" and envs = "\<lambda>k. sampleEnv"]
  by (simp add: mergeConfig_def emptyConfig_def)

theorem position_y_closed_form_witness:
  "position_y (updatePosition 16 1000
      ((Confetti_new (edgeArgs defaultConfettiConfig 0 700 Right) sampleEnv)
         \<lparr>absSin := 1/2, initialPosition_y := 700, speed_y := 1, createdAt := 0\<rparr>)) = 825"
  using position_y_closed_form [of 16 1000
      "(Confetti_new (edgeArgs defaultConfettiConfig 0 700 Right) sampleEnv)
         \<lparr>absSin := 1/2, initialPosition_y := 700, speed_y := 1, createdAt := 0\<rparr>" 0]
  by simp

section \<open>Properties of the Poisson disc\<close>

text \<open>
  The sampler over the real numbers, as the model of the background confetti calls it:
  it returns, and what it returns is sorted from 0 to 1.
\<close>

lemma radius_pos: "0 < radius" by (simp add: radius_def eccentricity_def)

lemma even_length_update_domain:
  "even (length ds) \<Longrightarrow> even (length (update_domain c d ds))"
  by (induction c d ds rule: update_domain.induct) auto

lemma find_dart_far:
  "domain_ok S ds \<Longrightarrow> m \<le> dart \<Longrightarrow> find_dart dart m ds = Some x \<Longrightarrow>
     0 \<le> x \<and> x \<le> 1 \<and> (\<forall>s \<in> set S. radius \<le> \<bar>x - s\<bar>)"
proof (induction dart m ds rule: find_dart.induct)
  case (1 dart m a b ds)
  show ?case
  proof (cases "dart < m + (b - a)")
    case True
    with 1 have x: "x = dart + (a - m)" by simp
    with True "1.prems"(2) have ab: "a \<le> x" "x < b" by simp_all
    from "1.prems"(1) have dom: "0 \<le> a" "b \<le> 1"
      "\<forall>s \<in> set S. s + radius \<le> a \<or> b + radius \<le> s" by simp_all
    have "\<forall>s \<in> set S. radius \<le> \<bar>x - s\<bar>"
    proof
      fix s assume "s \<in> set S"
      with dom(3) have "s + radius \<le> a \<or> b + radius \<le> s" by blast
      with ab show "radius \<le> \<bar>x - s\<bar>" by linarith
    qed
    with ab dom show ?thesis by simp
  next
    case False
    with 1 show ?thesis by simp
  qed
qed simp_all


lemma update_domain_new:
  "domain_ok S ds \<Longrightarrow> domain_ok (x # S) (update_domain (x - radius) (x + radius) ds)"
  using radius_pos
  by (induction "x - radius" "x + radius" ds rule: update_domain.induct) ((auto; force)+)

lemma measure_domain_nonneg: "domain_ok S ds \<Longrightarrow> 0 \<le> measure_domain ds"
  by (induction ds rule: measure_domain.induct) auto

lemma domain_ok_set: "set S = set T \<Longrightarrow> domain_ok S ds = domain_ok T ds"
  by (induction ds rule: measure_domain.induct) auto

lemma spline_ok_snoc:
  assumes "spline_ok S" "0 \<le> x" "x \<le> 1" "\<forall>s \<in> set S. radius \<le> \<bar>x - s\<bar>"
  shows "spline_ok (S @ [x])"
proof -
  have "x \<notin> set S" using assms(4) radius_pos by fastforce
  moreover have "\<forall>s \<in> set S. radius \<le> \<bar>s - x\<bar>" using assms(4) by (simp add: abs_minus_commute)
  ultimately show ?thesis using assms unfolding spline_ok_def by auto
qed


lemma sorted_hd_least:
  "sorted xs \<Longrightarrow> x \<in> set xs \<Longrightarrow> \<forall>y \<in> set xs. x \<le> y \<Longrightarrow> hd xs = (x::real)"
  by (cases xs) (auto intro: antisym)

lemma sorted_last_greatest:
  "sorted xs \<Longrightarrow> x \<in> set xs \<Longrightarrow> \<forall>y \<in> set xs. y \<le> x \<Longrightarrow> last xs = (x::real)"
proof (induction xs)
  case Nil
  then show ?case by simp
next
  case (Cons a xs)
  show ?case
  proof (cases "xs = []")
    case True
    with Cons.prems show ?thesis by simp
  next
    case False
    then have l: "last xs \<in> set xs" by simp
    with Cons.prems(1) have "a \<le> last xs" by simp
    have "x \<in> set xs"
    proof (rule ccontr)
      assume "x \<notin> set xs"
      with Cons.prems(2) have "x = a" by simp
      with Cons.prems(1,3) l have "last xs = a" by (auto intro: antisym)
      with l \<open>x = a\<close> \<open>x \<notin> set xs\<close> show False by simp
    qed
    with Cons.IH Cons.prems False show ?thesis by simp
  qed
qed

lemma min_gap_sorted:
  "sorted xs \<Longrightarrow> distinct xs \<Longrightarrow> \<forall>x \<in> set xs. \<forall>y \<in> set xs. x \<noteq> y \<longrightarrow> g \<le> \<bar>x - y\<bar>
     \<Longrightarrow> min_gap g xs"
proof (induction g xs rule: min_gap.induct)
  case (1 g x y zs)
  from "1.prems" have "x \<le> y" "x \<noteq> y" by auto
  moreover from "1.prems"(3) \<open>x \<noteq> y\<close> have "g \<le> \<bar>x - y\<bar>" by simp
  ultimately have "g \<le> y - x" by linarith
  moreover from 1 have "min_gap g (y # zs)" by simp
  ultimately show ?case by simp
qed simp_all



subsection \<open>The sampler returns\<close>

text \<open>
  With draws from \<open>[0, 1)\<close> the outer loop of \<^verbatim>\<open>createPoisson\<close> ends after at most 17
  turns: given 17 draws or more, the model returns a sequence.
\<close>

lemma ceil_shift: "nat \<lceil>(v - radius) / radius\<rceil> = nat \<lceil>v / radius\<rceil> - 1"
proof -
  have "(v - radius) / radius = v / radius - 1" using radius_pos by (simp add: field_simps)
  then show ?thesis by (simp add: nat_diff_distrib')
qed

lemma weight_mono: "v \<le> w \<Longrightarrow> nat \<lceil>v / radius\<rceil> \<le> nat \<lceil>w / radius\<rceil>"
  using radius_pos by (intro nat_mono ceiling_mono divide_right_mono) simp_all

lemma weight_pos: "0 < v \<Longrightarrow> 0 < nat \<lceil>v / radius\<rceil>"
  using radius_pos by simp

lemma weight_drop:
  assumes "v \<le> w - radius" "0 < w"
  shows "nat \<lceil>v / radius\<rceil> < nat \<lceil>w / radius\<rceil>"
proof -
  have "nat \<lceil>v / radius\<rceil> \<le> nat \<lceil>(w - radius) / radius\<rceil>" using assms(1) by (rule weight_mono)
  also have "\<dots> = nat \<lceil>w / radius\<rceil> - 1" by (rule ceil_shift)
  also have "\<dots> < nat \<lceil>w / radius\<rceil>" using weight_pos [OF assms(2)] by simp
  finally show ?thesis .
qed

lemma weight_split:
  assumes "0 < v" "0 < w"
  shows "nat \<lceil>v / radius\<rceil> + nat \<lceil>w / radius\<rceil> < nat \<lceil>(v + w + 2 * radius) / radius\<rceil>"
proof -
  have e: "(v + w + 2 * radius) / radius = v / radius + w / radius + 2"
    using radius_pos by (simp add: field_simps)
  have pv: "0 < v / radius" "0 < w / radius" using assms radius_pos by simp_all
  have "\<lceil>v / radius\<rceil> + \<lceil>w / radius\<rceil> < \<lceil>v / radius + w / radius + 2\<rceil>" by linarith
  moreover have "0 \<le> \<lceil>v / radius\<rceil>" "0 \<le> \<lceil>w / radius\<rceil>" using pv by linarith+
  ultimately show ?thesis unfolding e by linarith
qed

lemma potential_append:
  "even (length xs) \<Longrightarrow> potential (xs @ ys) = potential xs + potential ys"
  by (induction xs rule: potential.induct) simp_all

lemma update_domain_Cons2:
  "update_domain c d (a # b # ds) = update_domain c d [a, b] @ update_domain c d ds"
  by simp

lemma potential_update_Cons2:
  "potential (update_domain c d (a # b # ds))
     = potential (update_domain c d [a, b]) + potential (update_domain c d ds)"
  unfolding update_domain_Cons2 [of c d a b ds]
  by (rule potential_append) (rule even_length_update_domain, simp)

lemma potential_interval_le:
  assumes "a < b"
  shows "potential (update_domain (x - radius) (x + radius) [a, b]) \<le> potential [a, b]"
proof -
  let ?c = "x - radius" and ?d = "x + radius"
  consider (left) "a \<ge> ?c" "a < ?d" "b > ?d" | (delete) "a \<ge> ?c" "a < ?d" "\<not> b > ?d"
    | (right) "\<not> (a \<ge> ?c \<and> a < ?d)" "a < ?c" "b > ?c" "b \<le> ?d"
    | (split) "\<not> (a \<ge> ?c \<and> a < ?d)" "a < ?c" "b > ?c" "\<not> b \<le> ?d"
    | (none) "\<not> (a \<ge> ?c \<and> a < ?d)" "\<not> (a < ?c \<and> b > ?c)"
    by blast
  then show ?thesis
  proof cases
    case left
    have "nat \<lceil>(b - ?d) / radius\<rceil> \<le> nat \<lceil>(b - a) / radius\<rceil>"
      using left by (intro weight_mono) simp
    with left show ?thesis by simp
  next
    case delete
    then show ?thesis by simp
  next
    case right
    have "nat \<lceil>(?c - a) / radius\<rceil> \<le> nat \<lceil>(b - a) / radius\<rceil>"
      using right by (intro weight_mono) simp
    with right show ?thesis by simp
  next
    case split
    have "nat \<lceil>(?c - a) / radius\<rceil> + nat \<lceil>(b - ?d) / radius\<rceil>
        < nat \<lceil>((?c - a) + (b - ?d) + 2 * radius) / radius\<rceil>"
      using split by (intro weight_split) simp_all
    moreover have "(?c - a) + (b - ?d) + 2 * radius = b - a" by simp
    ultimately have "nat \<lceil>(?c - a) / radius\<rceil> + nat \<lceil>(b - ?d) / radius\<rceil>
        < nat \<lceil>(b - a) / radius\<rceil>" by simp
    with split show ?thesis by simp
  next
    case none
    then show ?thesis by auto
  qed
qed

lemma potential_interval_less:
  assumes "a \<le> x" "x < b"
  shows "potential (update_domain (x - radius) (x + radius) [a, b]) < potential [a, b]"
proof -
  let ?c = "x - radius" and ?d = "x + radius"
  from assms have ab: "0 < b - a" by simp
  from assms radius_pos have ad: "a < ?d" "b > ?c" by simp_all
  consider (left) "a \<ge> ?c" "b > ?d" | (delete) "a \<ge> ?c" "\<not> b > ?d"
    | (right) "a < ?c" "b \<le> ?d" | (split) "a < ?c" "\<not> b \<le> ?d"
    by linarith
  then show ?thesis
  proof cases
    case left
    have "nat \<lceil>(b - ?d) / radius\<rceil> < nat \<lceil>(b - a) / radius\<rceil>"
      using assms ab by (intro weight_drop) simp_all
    with left ad show ?thesis by simp
  next
    case delete
    with ad show ?thesis by simp
  next
    case right
    have "nat \<lceil>(?c - a) / radius\<rceil> < nat \<lceil>(b - a) / radius\<rceil>"
      using assms ab by (intro weight_drop) simp_all
    with right ad show ?thesis by simp
  next
    case split
    have "nat \<lceil>(?c - a) / radius\<rceil> + nat \<lceil>(b - ?d) / radius\<rceil>
        < nat \<lceil>((?c - a) + (b - ?d) + 2 * radius) / radius\<rceil>"
      using split by (intro weight_split) simp_all
    moreover have "(?c - a) + (b - ?d) + 2 * radius = b - a" by simp
    ultimately have "nat \<lceil>(?c - a) / radius\<rceil> + nat \<lceil>(b - ?d) / radius\<rceil>
        < nat \<lceil>(b - a) / radius\<rceil>" by simp
    with split ad show ?thesis by simp
  qed
qed

lemma potential_update_le:
  "domain_ok S ds \<Longrightarrow> potential (update_domain (x - radius) (x + radius) ds) \<le> potential ds"
proof (induction ds rule: potential.induct)
  case (1 a b ds)
  then have "a < b" "domain_ok S ds" by simp_all
  with 1 potential_interval_le [of a b x] potential_update_Cons2 [of "x - radius" "x + radius" a b ds]
  show ?case by (simp del: update_domain.simps)
qed simp_all

lemma potential_update_less:
  "domain_ok S ds \<Longrightarrow> m \<le> dart \<Longrightarrow> find_dart dart m ds = Some x \<Longrightarrow>
   potential (update_domain (x - radius) (x + radius) ds) < potential ds"
proof (induction dart m ds rule: find_dart.induct)
  case (1 dart m a b ds)
  from "1.prems"(1) have ok: "a < b" "domain_ok S ds" by simp_all
  show ?case
  proof (cases "dart < m + (b - a)")
    case True
    with "1.prems" have "a \<le> x" "x < b" by simp_all
    from potential_interval_less [OF this] potential_update_le [OF ok(2), of x]
      potential_update_Cons2 [of "x - radius" "x + radius" a b ds]
    show ?thesis by (simp del: update_domain.simps)
  next
    case False
    with 1 ok have "potential (update_domain (x - radius) (x + radius) ds) < potential ds"
      by simp
    with potential_interval_le [OF ok(1), of x]
      potential_update_Cons2 [of "x - radius" "x + radius" a b ds]
    show ?thesis by (simp del: update_domain.simps)
  qed
qed simp_all

lemma find_dart_finds:
  "domain_ok S ds \<Longrightarrow> m \<le> dart \<Longrightarrow> dart < m + measure_domain ds \<Longrightarrow>
   \<exists>x. find_dart dart m ds = Some x"
proof (induction dart m ds rule: find_dart.induct)
  case (1 dart m a b ds)
  show ?case
  proof (cases "dart < m + (b - a)")
    case True
    then show ?thesis by simp
  next
    case False
    with 1 show ?thesis by (simp add: algebra_simps)
  qed
qed simp_all

lemma potential_0_measure: "domain_ok S ds \<Longrightarrow> potential ds = 0 \<Longrightarrow> measure_domain ds = 0"
  by (cases ds rule: potential.cases) simp_all

lemma poisson_loop_returns:
  "domain_ok S ds \<Longrightarrow> spline_ok S \<Longrightarrow> m = measure_domain ds \<Longrightarrow>
   \<forall>u \<in> set us. 0 \<le> u \<and> u < 1 \<Longrightarrow> potential ds \<le> length us \<Longrightarrow>
   \<exists>T. poisson_loop us ds m S = Some T"
proof (induction us arbitrary: ds m S)
  case Nil
  then show ?case by (simp add: potential_0_measure)
next
  case (Cons u us)
  show ?case
  proof (cases "m = 0")
    case True
    then show ?thesis by simp
  next
    case False
    from Cons.prems have m0: "0 \<le> m" by (simp add: measure_domain_nonneg)
    with False have mpos: "0 < m" by simp
    from Cons.prems(4) have u: "0 \<le> u" "u < 1" by simp_all
    from u mpos have d0: "0 \<le> m * u" "m * u < m" by simp_all
    with Cons.prems(3) have "m * u < 0 + measure_domain ds" by simp
    from find_dart_finds [OF Cons.prems(1) d0(1) this] obtain x where x: "find_dart (m * u) 0 ds = Some x"
      by blast
    let ?ds = "update_domain (x - radius) (x + radius) ds"
    from find_dart_far [OF Cons.prems(1) d0(1) x]
    have xp: "0 \<le> x" "x \<le> 1" "\<forall>s \<in> set S. radius \<le> \<bar>x - s\<bar>" by simp_all
    from Cons.prems(2) xp have sp: "spline_ok (S @ [x])" by (rule spline_ok_snoc)
    have "domain_ok (x # S) ?ds" using Cons.prems(1) by (rule update_domain_new)
    then have dom: "domain_ok (S @ [x]) ?ds" by (simp add: domain_ok_set [of "S @ [x]" "x # S"])
    from potential_update_less [OF Cons.prems(1) d0(1) x] Cons.prems(5)
    have pot: "potential ?ds \<le> length us" by simp
    from Cons.prems(4) have rest: "\<forall>u \<in> set us. 0 \<le> u \<and> u < 1" by simp
    from Cons.IH [OF dom sp refl rest pot] obtain T where
      "poisson_loop us ?ds (measure_domain ?ds) (S @ [x]) = Some T" by blast
    with False x show ?thesis by (simp add: Let_def)
  qed
qed

lemma createPoisson_returns:
  assumes "\<forall>u \<in> set us. 0 \<le> u \<and> u < 1" "17 \<le> length us"
  shows "\<exists>s. createPoisson us = Some s"
proof -
  have d: "domain_ok [0, 1] [radius, 1 - radius]"
    by (simp add: radius_def eccentricity_def)
  have sp: "spline_ok [0, 1]"
    by (simp add: spline_ok_def radius_def eccentricity_def)
  have m: "1 - radius2 = measure_domain [radius, 1 - radius]"
    by (simp add: radius2_def)
  have "potential [radius, 1 - radius] = 17"
    by (simp add: radius_def eccentricity_def)
  with assms(2) have p: "potential [radius, 1 - radius] \<le> length us" by simp
  from poisson_loop_returns [OF d sp m assms(1) p] show ?thesis
    by (auto simp: createPoisson_def)
qed

section \<open>Properties of the Poisson disc in binary64\<close>

lemma radius_b64_value: "radius_b64 = 3602879701896397 / 36028797018963968"
  unfolding radius_b64_def eccentricity_def by (simp add: fl_eval)

lemma radius_b64_bounds: "1 / 16 \<le> radius_b64" "radius_b64 \<le> 1 / 8"
  unfolding radius_b64_value by simp_all

text \<open>
  \<open>update_domain\<close> keeps the invariant of the domain, puts the new sample among the
  samples that the domain keeps away from, and adds at most one interval: the
  intervals do not overlap, so at most one of them is split.
\<close>

lemma domain_b64_ok_lower:
  "domain_b64_ok lo S ds \<Longrightarrow> lo' \<le> lo \<Longrightarrow> domain_b64_ok lo' S ds"
  by (induction lo S ds rule: domain_b64_ok.induct) auto

lemma update_domain_fixed:
  "domain_b64_ok lo S ds \<Longrightarrow> c \<le> d \<Longrightarrow> d \<le> lo \<Longrightarrow> update_domain c d ds = ds"
  by (induction lo S ds rule: domain_b64_ok.induct) auto

lemma update_domain_b64_ok:
  "domain_b64_ok lo S ds \<Longrightarrow> c \<le> d \<Longrightarrow> domain_b64_ok lo S (update_domain c d ds)"
proof (induction lo S ds rule: domain_b64_ok.induct)
  case (1 lo S a b ds)
  then have rest: "domain_b64_ok b S (update_domain c d ds)" by simp
  from "1.prems" have ab: "lo \<le> a" "a < b" "b \<le> 1"
    "\<forall>s \<in> set S. b \<le> s - radius_b64 + tol \<or> s + radius_b64 - tol \<le> a" by simp_all
  have r1: "domain_b64_ok lo S (update_domain c d ds)"
    using rest ab by (intro domain_b64_ok_lower [OF rest]) simp
  have r2: "b > c \<Longrightarrow> domain_b64_ok c S (update_domain c d ds)"
    using rest by (intro domain_b64_ok_lower [OF rest]) simp
  show ?case using ab rest r1 r2 "1.prems"(2) by (auto; force)
qed simp_all

lemma update_domain_b64_new:
  "domain_b64_ok lo S ds \<Longrightarrow> c \<le> d \<Longrightarrow> c \<le> x - radius_b64 + tol
     \<Longrightarrow> x + radius_b64 - tol \<le> d \<Longrightarrow> domain_b64_ok lo (x # S) (update_domain c d ds)"
proof (induction lo S ds rule: domain_b64_ok.induct)
  case (1 lo S a b ds)
  then have rest: "domain_b64_ok b (x # S) (update_domain c d ds)" by simp
  from "1.prems" have ab: "lo \<le> a" "a < b" "b \<le> 1"
    "\<forall>s \<in> set S. b \<le> s - radius_b64 + tol \<or> s + radius_b64 - tol \<le> a" by simp_all
  have r1: "domain_b64_ok lo (x # S) (update_domain c d ds)"
    using rest ab by (intro domain_b64_ok_lower [OF rest]) simp
  have r2: "b > c \<Longrightarrow> domain_b64_ok c (x # S) (update_domain c d ds)"
    using rest by (intro domain_b64_ok_lower [OF rest]) simp
  show ?case using ab rest r1 r2 "1.prems"(2,3,4) by (auto; force)
qed simp_all

lemma update_domain_length:
  "domain_b64_ok lo S ds \<Longrightarrow> c \<le> d \<Longrightarrow> length (update_domain c d ds) \<le> length ds + 2"
proof (induction lo S ds rule: domain_b64_ok.induct)
  case (1 lo S a b ds)
  then have ih: "length (update_domain c d ds) \<le> length ds + 2" by simp
  show ?case
  proof (cases "a < c \<and> b > d")
    case True
    with "1.prems" have "update_domain c d ds = ds"
      by (intro update_domain_fixed [of b S]) simp_all
    then show ?thesis by simp
  next
    case False
    with ih "1.prems" show ?thesis by auto
  qed
qed simp_all

lemma measure_b64_nonneg:
  "domain_b64_ok lo S ds \<Longrightarrow> 0 \<le> m \<Longrightarrow> 0 \<le> measure_b64 m ds"
proof (induction m ds arbitrary: lo rule: measure_b64.induct)
  case (1 m a b ds)
  then have "0 \<le> fl (b - a)" by (intro fl_nonneg) simp
  with "1.prems" have "0 \<le> fl (m + fl (b - a))" by (intro fl_nonneg) simp
  moreover from "1.prems" have "domain_b64_ok b S ds" by simp
  ultimately have "0 \<le> measure_b64 (fl (m + fl (b - a))) ds" by (rule "1.IH" [rotated])
  then show ?case by simp
qed simp_all

text \<open>
  The dart that is pushed. When the search stops at the interval \<open>[a, b]\<close>, the
  accumulator \<open>m\<close> is at most the dart and the dart is below \<open>fl (m + fl (b - a))\<close>; the
  accumulator is at most the number \<open>k\<close> of intervals passed, since an interval is at
  most 1 long. With at most \<open>M\<close> intervals the three roundings put the new sample less
  than \<open>(2 M + 3) / 2^53\<close> outside \<open>[a, b]\<close>.
\<close>

lemma find_dart_b64_near:
  assumes "find_dart_b64 dart m ds = Some x" "domain_b64_ok lo S ds" "0 \<le> lo"
    and "0 \<le> m" "m \<le> dart" "m \<le> real k" "k + length ds div 2 \<le> M" "M \<le> 2 ^ 41"
  shows "\<exists>a b. a - (real M + 2) / 2 ^ 53 \<le> x \<and> x \<le> b + (2 * real M + 3) / 2 ^ 53
           \<and> 0 \<le> a \<and> a < b \<and> b \<le> 1
           \<and> (\<forall>s \<in> set S. b \<le> s - radius_b64 + tol \<or> s + radius_b64 - tol \<le> a)"
  using assms
proof (induction dart m ds arbitrary: k lo rule: find_dart_b64.induct)
  case (1 dart m a b ds)
  define e where "e = real M / 2 ^ 53"
  define I where "I = fl (b - a)"
  define u :: real where "u = 1 / 2 ^ 53"
  have u: "0 \<le> u" "u \<le> 1 / 4096" by (simp_all add: u_def)
  from "1.prems"(2) have ab: "lo \<le> a" "a < b" "b \<le> 1"
    "\<forall>s \<in> set S. b \<le> s - radius_b64 + tol \<or> s + radius_b64 - tol \<le> a"
    "domain_b64_ok b S ds" by simp_all
  from "1.prems"(7) have k: "Suc k + length ds div 2 \<le> M" "Suc k \<le> M" by simp_all
  then have kM: "real k + 1 \<le> real M" by linarith
  have M1: "1 \<le> real M" using kM by linarith
  have "real M \<le> 2 ^ 41" using "1.prems"(8) by (metis of_nat_le_iff of_nat_numeral of_nat_power)
  then have e: "0 \<le> e" "e \<le> 1 / 4096" by (simp_all add: e_def)
  have tiny: "2 powi (- 1022) \<le> real M" using tiny_le_1 M1 by linarith
  have "\<bar>b - a\<bar> \<le> 1" using ab "1.prems"(3) by linarith
  from fl_error_coarse [OF this tiny_le_1] have "\<bar>I - (b - a)\<bar> \<le> u"
    by (simp add: I_def u_def)
  then have eI: "I \<le> b - a + u" by linarith
  have I0: "0 \<le> I" unfolding I_def using ab by (intro fl_nonneg) simp
  have "fl (b - a) \<le> fl 1" using ab "1.prems"(3) by (intro fl_mono) linarith
  then have I1: "I \<le> 1" by (simp add: I_def)
  have "\<bar>m + I\<bar> \<le> real M" using I0 I1 "1.prems"(4,6) kM by linarith
  from fl_error_coarse [OF this tiny] have "\<bar>fl (m + I) - (m + I)\<bar> \<le> e"
    by (simp add: e_def)
  then have eS: "fl (m + I) \<le> m + I + e" by linarith
  show ?case
  proof (cases "dart < fl (m + I)")
    case True
    with "1.prems"(1) have x: "x = fl (dart + fl (a - m))" by (simp add: I_def)
    define t where "t = fl (a - m)"
    have "\<bar>a - m\<bar> \<le> real M" using ab "1.prems"(3,4,6) kM by linarith
    from fl_error_coarse [OF this tiny] have "\<bar>t - (a - m)\<bar> \<le> e"
      by (simp add: e_def t_def)
    then have eT: "t \<le> a - m + e" "a - m - e \<le> t" by linarith+
    have a0: "0 \<le> a" using ab(1) "1.prems"(3) by linarith
    have lo1: "a - e \<le> dart + t" using eT(2) "1.prems"(5) by linarith
    have up1: "dart + t \<le> b + 2 * e + u" using True eS eI eT(1) by linarith
    have "- 2 \<le> dart + t" using lo1 a0 e(2) by linarith
    moreover have "dart + t \<le> 2" using up1 ab(3) e(2) u(2) by linarith
    ultimately have "\<bar>dart + t\<bar> \<le> 2" by linarith
    from fl_error_coarse [OF this] tiny_le_1 have "\<bar>x - (dart + t)\<bar> \<le> 2 * u"
      by (simp add: x t_def u_def)
    then have eX: "x \<le> dart + t + 2 * u" "dart + t - 2 * u \<le> x" by linarith+
    have lower: "a - (e + 2 * u) \<le> x" using eX(2) lo1 by linarith
    have upper: "x \<le> b + (2 * e + 3 * u)" using eX(1) up1 by linarith
    have "a - (real M + 2) / 2 ^ 53 \<le> x" "x \<le> b + (2 * real M + 3) / 2 ^ 53"
      using lower upper by (simp_all add: e_def u_def add_divide_distrib)
    moreover have "0 \<le> a" using ab "1.prems"(3) by linarith
    ultimately show ?thesis using ab by blast
  next
    case False
    with "1.prems"(1) have run: "find_dart_b64 dart (fl (m + fl (b - a))) ds = Some x"
      by (simp add: I_def)
    have p3: "0 \<le> b" using ab "1.prems"(3) by linarith
    have p4: "0 \<le> fl (m + fl (b - a))" using I0 "1.prems"(4) by (intro fl_nonneg) (simp add: I_def)
    have p5: "fl (m + fl (b - a)) \<le> dart" using False by (simp add: I_def)
    have "\<bar>int (Suc k)\<bar> < 2 ^ 53"
    proof -
      have "Suc k \<le> 2 ^ 41" using k(2) "1.prems"(8) by linarith
      then have "int (Suc k) \<le> 2 ^ 41" by (metis of_nat_le_iff of_nat_numeral of_nat_power)
      then show ?thesis by simp
    qed
    from fl_of_int [OF this] have ex: "fl (1 + real k) = 1 + real k" by (simp add: add.commute)
    have "fl (m + I) \<le> fl (1 + real k)" using I1 "1.prems"(6) by (intro fl_mono) simp
    then have "fl (m + I) \<le> 1 + real k" unfolding ex .
    then have p6: "fl (m + fl (b - a)) \<le> real (Suc k)" by (simp add: I_def)
    from False have nf: "\<not> dart < fl (m + fl (b - a))" by (simp add: I_def)
    from "1.IH" [OF nf run ab(5) p3 p4 p5 p6 k(1) "1.prems"(8)] show ?thesis .
  qed
qed simp_all

lemma find_dart_b64_far:
  assumes "find_dart_b64 dart 0 ds = Some x" "domain_b64_ok 0 S ds" "0 \<le> dart"
    and "length ds div 2 \<le> M" "M \<le> 2 ^ 41" "0 \<in> set S" "1 \<in> set S"
  shows "0 \<le> x \<and> x \<le> 1 \<and> (\<forall>s \<in> set S. radius_b64 - (2 * real M + 5) / 2 ^ 53 \<le> \<bar>x - s\<bar>)"
proof -
  define e where "e = real M / 2 ^ 53"
  define u :: real where "u = 1 / 2 ^ 53"
  have u: "0 \<le> u" "u \<le> 1 / 4096" by (simp_all add: u_def)
  have "real M \<le> 2 ^ 41" using assms(5) by (metis of_nat_le_iff of_nat_numeral of_nat_power)
  then have e: "0 \<le> e" "e \<le> 1 / 4096" by (simp_all add: e_def)
  have t: "tol = 2 * u" by (simp add: tol_def u_def)
  have k0: "(0::real) \<le> real 0" "0 + length ds div 2 \<le> M" using assms(4) by simp_all
  from find_dart_b64_near [OF assms(1,2) order_refl order_refl assms(3) k0 assms(5)]
  obtain a b where "a - (real M + 2) / 2 ^ 53 \<le> x" "x \<le> b + (2 * real M + 3) / 2 ^ 53"
    and ab: "0 \<le> a" "a < b" "b \<le> 1"
    and far: "\<forall>s \<in> set S. b \<le> s - radius_b64 + tol \<or> s + radius_b64 - tol \<le> a"
    by blast
  then have x: "a - (e + 2 * u) \<le> x" "x \<le> b + (2 * e + 3 * u)"
    by (simp_all add: e_def u_def add_divide_distrib)
  have g: "(2 * real M + 5) / 2 ^ 53 = 2 * e + 5 * u"
    by (simp add: e_def u_def add_divide_distrib)
  note r = radius_b64_bounds
  from far assms(6) have "b \<le> 0 - radius_b64 + tol \<or> 0 + radius_b64 - tol \<le> a" by blast
  then have "radius_b64 - 2 * u \<le> a" using ab r(1) u(2) unfolding t by linarith
  then have x0: "0 \<le> x" using x(1) r(1) e(2) u(2) by linarith
  from far assms(7) have "b \<le> 1 - radius_b64 + tol \<or> 1 + radius_b64 - tol \<le> a" by blast
  then have "b \<le> 1 - radius_b64 + 2 * u" using ab r(1) u(2) unfolding t by linarith
  then have x1: "x \<le> 1" using x(2) r(1) e(2) u(2) by linarith
  have "\<forall>s \<in> set S. radius_b64 - (2 * e + 5 * u) \<le> \<bar>x - s\<bar>"
  proof
    fix s assume "s \<in> set S"
    with far have "b \<le> s - radius_b64 + 2 * u \<or> s + radius_b64 - 2 * u \<le> a"
      unfolding t by blast
    then show "radius_b64 - (2 * e + 5 * u) \<le> \<bar>x - s\<bar>"
    proof
      assume "b \<le> s - radius_b64 + 2 * u"
      with x(2) have "radius_b64 - (2 * e + 5 * u) \<le> s - x" by linarith
      then show ?thesis by linarith
    next
      assume "s + radius_b64 - 2 * u \<le> a"
      with x(1) e(1) u(1) have "radius_b64 - (2 * e + 5 * u) \<le> x - s" by linarith
      then show ?thesis by linarith
    qed
  qed
  with x0 x1 show ?thesis unfolding g by simp
qed

lemma domain_b64_ok_set: "set S = set T \<Longrightarrow> domain_b64_ok lo S ds = domain_b64_ok lo T ds"
  by (induction lo S ds rule: domain_b64_ok.induct) auto

lemma spline_b64_ok_snoc:
  assumes "spline_b64_ok g S" "0 < g" "0 \<le> x" "x \<le> 1" "\<forall>s \<in> set S. g \<le> \<bar>x - s\<bar>"
  shows "spline_b64_ok g (S @ [x])"
proof -
  have "x \<notin> set S" using assms(2,5) by fastforce
  moreover have "\<forall>s \<in> set S. g \<le> \<bar>s - x\<bar>" using assms(5) by (simp add: abs_minus_commute)
  ultimately show ?thesis using assms unfolding spline_b64_ok_def by auto
qed

lemma gap_pos:
  assumes "M \<le> 2 ^ 41"
  shows "0 < radius_b64 - (2 * real M + 5) / 2 ^ 53"
proof -
  have "real M \<le> 2 ^ 41" using assms by (metis of_nat_le_iff of_nat_numeral of_nat_power)
  then have "(2 * real M + 5) / 2 ^ 53 \<le> (2 * 2 ^ 41 + 5) / 2 ^ 53"
    by (intro divide_right_mono) simp_all
  also have "\<dots> < 1 / 16" by simp
  finally show ?thesis using radius_b64_bounds(1) by linarith
qed

lemma window_b64:
  assumes "0 \<le> x" "x \<le> 1"
  shows "fl (x - radius_b64) \<le> fl (x + radius_b64)"
    and "fl (x - radius_b64) \<le> x - radius_b64 + tol"
    and "x + radius_b64 - tol \<le> fl (x + radius_b64)"
proof -
  note r = radius_b64_bounds
  show "fl (x - radius_b64) \<le> fl (x + radius_b64)" using r(1) by (intro fl_mono) linarith
  have "\<bar>x - radius_b64\<bar> \<le> 2" using assms r by linarith
  from fl_error_coarse [OF this] tiny_le_1
  have "\<bar>fl (x - radius_b64) - (x - radius_b64)\<bar> \<le> tol" by (simp add: tol_def)
  then show "fl (x - radius_b64) \<le> x - radius_b64 + tol" by linarith
  have "\<bar>x + radius_b64\<bar> \<le> 2" using assms r by linarith
  from fl_error_coarse [OF this] tiny_le_1
  have "\<bar>fl (x + radius_b64) - (x + radius_b64)\<bar> \<le> tol" by (simp add: tol_def)
  then show "x + radius_b64 - tol \<le> fl (x + radius_b64)" by linarith
qed

text \<open>
  The outer loop keeps the invariant: with \<open>M\<close> a bound on the number of intervals
  (one more than the number of draws), any two samples are at least
  \<open>radius_b64 - (2 M + 5) / 2^53\<close> apart.
\<close>

lemma poisson_loop_b64_ok:
  "poisson_loop_b64 us domain msr S = Some T \<Longrightarrow> domain_b64_ok 0 S domain \<Longrightarrow>
   spline_b64_ok (radius_b64 - (2 * real M + 5) / 2 ^ 53) S \<Longrightarrow> 0 \<le> msr \<Longrightarrow>
   \<forall>u \<in> set us. 0 \<le> u \<Longrightarrow> length domain div 2 + length us \<le> M \<Longrightarrow> M \<le> 2 ^ 41 \<Longrightarrow>
   spline_b64_ok (radius_b64 - (2 * real M + 5) / 2 ^ 53) T"
proof (induction us arbitrary: domain msr S)
  case Nil
  then show ?case by (simp split: if_splits)
next
  case (Cons u us)
  let ?g = "radius_b64 - (2 * real M + 5) / 2 ^ 53"
  show ?case
  proof (cases "msr = 0")
    case True
    with Cons.prems show ?thesis by simp
  next
    case False
    let ?dart0 = "fl (msr * u)"
    from Cons.prems(4,5) have d0: "0 \<le> ?dart0" by (intro fl_nonneg) simp
    from Cons.prems(6) have len: "length domain div 2 \<le> M" by simp
    from Cons.prems(3) have in01: "0 \<in> set S" "1 \<in> set S" by (simp_all add: spline_b64_ok_def)
    from Cons.prems(5) have us: "\<forall>u \<in> set us. 0 \<le> u" by simp
    have grow: "length (update_domain c d domain) div 2 + length us \<le> M" if "c \<le> d" for c d
    proof -
      from update_domain_length [OF Cons.prems(2) that]
      have "length (update_domain c d domain) div 2 \<le> length domain div 2 + 1" by linarith
      with Cons.prems(6) show ?thesis by simp
    qed
    show ?thesis
    proof (cases "find_dart_b64 ?dart0 0 domain")
      case None
      let ?c = "fl (?dart0 - radius_b64)" and ?d = "fl (?dart0 + radius_b64)"
      from None False Cons.prems(1)
      have run: "poisson_loop_b64 us (update_domain ?c ?d domain)
            (measure_b64 0 (update_domain ?c ?d domain)) S = Some T"
        by (simp add: Let_def)
      have cd: "?c \<le> ?d" using radius_b64_bounds(1) by (intro fl_mono) linarith
      from Cons.prems(2) cd have dom: "domain_b64_ok 0 S (update_domain ?c ?d domain)"
        by (rule update_domain_b64_ok)
      from measure_b64_nonneg [OF dom order_refl]
      have m: "0 \<le> measure_b64 0 (update_domain ?c ?d domain)" .
      from Cons.IH [OF run dom Cons.prems(3) m us grow [OF cd] Cons.prems(7)] show ?thesis .
    next
      case (Some x)
      let ?c = "fl (x - radius_b64)" and ?d = "fl (x + radius_b64)"
      from Some False Cons.prems(1)
      have run: "poisson_loop_b64 us (update_domain ?c ?d domain)
            (measure_b64 0 (update_domain ?c ?d domain)) (S @ [x]) = Some T"
        by (simp add: Let_def)
      from find_dart_b64_far [OF Some Cons.prems(2) d0 len Cons.prems(7) in01]
      have x: "0 \<le> x" "x \<le> 1" "\<forall>s \<in> set S. ?g \<le> \<bar>x - s\<bar>" by simp_all
      from Cons.prems(3) gap_pos [OF Cons.prems(7)] x have sp: "spline_b64_ok ?g (S @ [x])"
        by (rule spline_b64_ok_snoc)
      note w = window_b64 [OF x(1,2)]
      have "domain_b64_ok 0 (x # S) (update_domain ?c ?d domain)"
        using Cons.prems(2) w by (rule update_domain_b64_new)
      then have dom: "domain_b64_ok 0 (S @ [x]) (update_domain ?c ?d domain)"
        by (simp add: domain_b64_ok_set [of "S @ [x]" "x # S"])
      from measure_b64_nonneg [OF dom order_refl]
      have m: "0 \<le> measure_b64 0 (update_domain ?c ?d domain)" .
      from Cons.IH [OF run dom sp m us grow [OF w(1)] Cons.prems(7)] show ?thesis .
    qed
  qed
qed

lemma initial_b64_ok:
  "domain_b64_ok 0 [0, 1] [radius_b64, fl (1 - radius_b64)]" "0 \<le> fl (1 - radius2_b64)"
proof -
  have a: "fl (1 - radius_b64) = 8106479329266893 / 9007199254740992"
    unfolding radius_b64_value by (simp add: fl_eval)
  show "domain_b64_ok 0 [0, 1] [radius_b64, fl (1 - radius_b64)]"
    unfolding a by (simp add: tol_def radius_b64_value)
  have "0 \<le> radius_b64 + radius_b64" using radius_b64_bounds by linarith
  have "fl (radius_b64 + radius_b64) \<le> fl 1" using radius_b64_bounds by (intro fl_mono) linarith
  then have "radius2_b64 \<le> 1" by (simp add: radius2_b64_def)
  then show "0 \<le> fl (1 - radius2_b64)" by (intro fl_nonneg) simp
qed

lemma createPoisson_b64_shape:
  assumes "createPoisson_b64 us = Some s" "\<forall>u \<in> set us. 0 \<le> u" "length us < 2 ^ 41"
  shows "sorted s \<and> hd s = 0 \<and> last s = 1
       \<and> min_gap (radius_b64 - (2 * real (length us) + 7) / 2 ^ 53) s"
proof -
  define M where "M = length us + 1"
  let ?g = "radius_b64 - (2 * real M + 5) / 2 ^ 53"
  from assms(1) obtain T where
    T: "poisson_loop_b64 us [radius_b64, fl (1 - radius_b64)] (fl (1 - radius2_b64)) [0, 1] = Some T"
    and s: "s = sort T"
    by (auto simp: createPoisson_b64_def)
  have M: "M \<le> 2 ^ 41" using assms(3) by (simp add: M_def)
  have "0 \<le> (2 * real M + 5) / 2 ^ 53" by simp
  then have "?g \<le> 1" using radius_b64_bounds(2) by linarith
  then have sp: "spline_b64_ok ?g [0, 1]" by (simp add: spline_b64_ok_def)
  have len: "length [radius_b64, fl (1 - radius_b64)] div 2 + length us \<le> M" by (simp add: M_def)
  from poisson_loop_b64_ok [OF T initial_b64_ok(1) sp initial_b64_ok(2) assms(2) len M]
  have ok: "spline_b64_ok ?g T" .
  have st: "set s = set T" "distinct s" "sorted s"
    using ok by (simp_all add: s spline_b64_ok_def)
  from ok st(1) have in01: "0 \<in> set s" "1 \<in> set s" "\<forall>x \<in> set s. 0 \<le> x \<and> x \<le> 1"
    and far: "\<forall>x \<in> set s. \<forall>y \<in> set s. x \<noteq> y \<longrightarrow> ?g \<le> \<bar>x - y\<bar>"
    by (simp_all add: spline_b64_ok_def)
  have h: "hd s = 0" using st(3) in01 by (intro sorted_hd_least) simp_all
  have l: "last s = 1" using st(3) in01 by (intro sorted_last_greatest) simp_all
  have g: "min_gap ?g s" using st(3,2) far by (rule min_gap_sorted)
  have "2 * real M + 5 = 2 * real (length us) + 7" by (simp add: M_def)
  with st h l g show ?thesis by simp
qed

text \<open>
  C1, as the claim states it, is false of the code. When every draw is \<open>1/2\<close> the
  sampler returns after seven draws; adjacent samples of the result are less than
  \<open>2 * radius\<close> apart (the first two by \<open>0.10625000000000007\<close>), and \<open>0.5\<close> and \<open>0.6\<close> are
  \<open>0.09999999999999998\<close> apart, less than \<open>radius\<close> itself. In the proof every fact
  \<open>e\<^sub>i\<close> is one operation of the run, rounded.
\<close>

theorem createPoisson_b64_gap_below_radius:
  "createPoisson_b64 [1/2, 1/2, 1/2, 1/2, 1/2, 1/2, 1/2] = Some [0, 957014920816231 / 9007199254740992, 957014920816231 / 4503599627370496, 788129934789837 / 2251799813685248, 1 / 2, 5404319552844595 / 9007199254740992, 3265109729843609 / 4503599627370496, 3856207180935987 / 4503599627370496, 1]
   \<and> \<not> min_gap (2 * radius_b64) (the (createPoisson_b64 [1/2, 1/2, 1/2, 1/2, 1/2, 1/2, 1/2]))
   \<and> \<not> min_gap radius_b64 (the (createPoisson_b64 [1/2, 1/2, 1/2, 1/2, 1/2, 1/2, 1/2]))"
proof -
  have e1: "fl (3602879701896397 / 18014398509481984)
      = 3602879701896397 / 18014398509481984"
    by (simp add: fl_eval)
  have e2: "fl (32425917317067571 / 36028797018963968)
      = 8106479329266893 / 9007199254740992"
    by (simp add: fl_eval)
  have e3: "fl (14411518807585587 / 18014398509481984)
      = 3602879701896397 / 4503599627370496"
    by (simp add: fl_eval)
  have e4: "fl (3602879701896397 / 9007199254740992)
      = 3602879701896397 / 9007199254740992"
    by (simp add: fl_eval)
  have e5: "fl (28823037615171175 / 36028797018963968)
      = 3602879701896397 / 4503599627370496"
    by (simp add: fl_eval)
  have e6: "fl (3602879701896397 / 4503599627370496)
      = 3602879701896397 / 4503599627370496"
    by (simp add: fl_eval)
  have e7: "fl (3602879701896397 / 36028797018963968)
      = 3602879701896397 / 36028797018963968"
    by (simp add: fl_eval)
  have e8: "fl (18014398509481985 / 36028797018963968) = 1 / 2" by (simp add: fl_eval)
  have e9: "fl (14411518807585587 / 36028797018963968)
      = 3602879701896397 / 9007199254740992"
    by (simp add: fl_eval)
  have e10: "fl (21617278211378381 / 36028797018963968)
      = 5404319552844595 / 9007199254740992"
    by (simp add: fl_eval)
  have e11: "fl (10808639105689191 / 36028797018963968)
      = 1351079888211149 / 4503599627370496"
    by (simp add: fl_eval)
  have e12: "fl (1351079888211149 / 4503599627370496)
      = 1351079888211149 / 4503599627370496"
    by (simp add: fl_eval)
  have e13: "fl (1351079888211149 / 2251799813685248)
      = 1351079888211149 / 2251799813685248"
    by (simp add: fl_eval)
  have e14: "fl (2702159776422297 / 9007199254740992)
      = 2702159776422297 / 9007199254740992"
    by (simp add: fl_eval)
  have e15: "fl (5404319552844595 / 9007199254740992)
      = 5404319552844595 / 9007199254740992"
    by (simp add: fl_eval)
  have e16: "fl (18014398509481983 / 36028797018963968) = 1 / 2" by (simp add: fl_eval)
  have e17: "fl (25220157913274777 / 36028797018963968)
      = 3152519739159347 / 4503599627370496"
    by (simp add: fl_eval)
  have e18: "fl (1801439850948199 / 9007199254740992)
      = 1801439850948199 / 9007199254740992"
    by (simp add: fl_eval)
  have e19: "fl (4503599627370497 / 9007199254740992)
      = 4503599627370497 / 9007199254740992"
    by (simp add: fl_eval)
  have e20: "fl (4503599627370497 / 18014398509481984)
      = 4503599627370497 / 18014398509481984"
    by (simp add: fl_eval)
  have e21: "fl (12610078956637391 / 36028797018963968)
      = 788129934789837 / 2251799813685248"
    by (simp add: fl_eval)
  have e22: "fl (9007199254740995 / 36028797018963968)
      = 2251799813685249 / 9007199254740992"
    by (simp add: fl_eval)
  have e23: "fl (16212958658533789 / 36028797018963968)
      = 4053239664633447 / 9007199254740992"
    by (simp add: fl_eval)
  have e24: "fl (5404319552844599 / 36028797018963968)
      = 5404319552844599 / 36028797018963968"
    by (simp add: fl_eval)
  have e25: "fl (12610078956637395 / 36028797018963968)
      = 3152519739159349 / 9007199254740992"
    by (simp add: fl_eval)
  have e26: "fl (3152519739159349 / 18014398509481984)
      = 3152519739159349 / 18014398509481984"
    by (simp add: fl_eval)
  have e27: "fl (19815838360430177 / 36028797018963968)
      = 619244948763443 / 1125899906842624"
    by (simp add: fl_eval)
  have e28: "fl (13060438919374437 / 18014398509481984)
      = 3265109729843609 / 4503599627370496"
    by (simp add: fl_eval)
  have e29: "fl (22517998136852475 / 36028797018963968)
      = 5629499534213119 / 9007199254740992"
    by (simp add: fl_eval)
  have e30: "fl (29723757540645269 / 36028797018963968)
      = 7430939385161317 / 9007199254740992"
    by (simp add: fl_eval)
  have e31: "fl (84442493013197 / 1125899906842624)
      = 84442493013197 / 1125899906842624"
    by (simp add: fl_eval)
  have e32: "fl (8106479329266903 / 36028797018963968)
      = 8106479329266903 / 36028797018963968"
    by (simp add: fl_eval)
  have e33: "fl (8106479329266903 / 72057594037927936)
      = 8106479329266903 / 72057594037927936"
    by (simp add: fl_eval)
  have e34: "fl (15312238733059697 / 72057594037927936)
      = 957014920816231 / 4503599627370496"
    by (simp add: fl_eval)
  have e35: "fl (4053239664633451 / 36028797018963968)
      = 4053239664633451 / 36028797018963968"
    by (simp add: fl_eval)
  have e36: "fl (11258999068426245 / 36028797018963968)
      = 2814749767106561 / 9007199254740992"
    by (simp add: fl_eval)
  have e37: "fl (225179981368527 / 18014398509481984)
      = 225179981368527 / 18014398509481984"
    by (simp add: fl_eval)
  have e38: "fl (1576259869579679 / 18014398509481984)
      = 1576259869579679 / 18014398509481984"
    by (simp add: fl_eval)
  have e39: "fl (1576259869579679 / 36028797018963968)
      = 1576259869579679 / 36028797018963968"
    by (simp add: fl_eval)
  have e40: "fl (14636698788954107 / 18014398509481984)
      = 3659174697238527 / 4503599627370496"
    by (simp add: fl_eval)
  have e41: "fl (30849657447487895 / 36028797018963968)
      = 3856207180935987 / 4503599627370496"
    by (simp add: fl_eval)
  have e42: "fl (27246777745591499 / 36028797018963968)
      = 6811694436397875 / 9007199254740992"
    by (simp add: fl_eval)
  have e43: "fl (34452537149384293 / 36028797018963968)
      = 8613134287346073 / 9007199254740992"
    by (simp add: fl_eval)
  have e44: "fl (225179981368527 / 36028797018963968)
      = 225179981368527 / 36028797018963968"
    by (simp add: fl_eval)
  have e45: "fl (957014920816231 / 9007199254740992)
      = 957014920816231 / 9007199254740992"
    by (simp add: fl_eval)
  have e46: "fl (7430939385161321 / 36028797018963968)
      = 7430939385161321 / 36028797018963968"
    by (simp add: fl_eval)
  have run: "createPoisson_b64 [1/2, 1/2, 1/2, 1/2, 1/2, 1/2, 1/2] = Some [0, 957014920816231 / 9007199254740992, 957014920816231 / 4503599627370496, 788129934789837 / 2251799813685248, 1 / 2, 5404319552844595 / 9007199254740992, 3265109729843609 / 4503599627370496, 3856207180935987 / 4503599627370496, 1]"
    by (simp add: createPoisson_b64_def radius2_b64_def radius_b64_value Let_def
      e1 e2 e3 e4 e5 e6 e7 e8 e9 e10 e11 e12 e13 e14 e15 e16 e17 e18 e19 e20 e21 e22 e23 e24 e25 e26 e27 e28 e29 e30 e31 e32 e33 e34 e35 e36 e37 e38 e39 e40 e41 e42 e43 e44 e45 e46)
  show ?thesis unfolding run by (simp add: radius_b64_value)
qed

text \<open>
  C1 (amended): every sequence that \<^verbatim>\<open>createPoisson\<close> returns from fewer than \<open>2^41\<close>
  draws is sorted ascending, starts at 0 and ends at 1, and adjacent samples differ by
  at least \<open>radius\<close> (the double nearest to \<open>1/10\<close>, not \<open>2 * radius\<close>) less the rounding
  of the sums of interval lengths, which is at most \<open>(2 n + 7) / 2^53\<close> after \<open>n\<close> draws:
  a dart excludes the points closer than \<open>radius\<close> to it.
\<close>

theorem createPoisson_b64_spacing:
  assumes "createPoisson_b64 us = Some spline" "\<forall>u \<in> set us. 0 \<le> u \<and> u < 1"
    and "length us < 2 ^ 41"
  shows "sorted spline \<and> hd spline = 0 \<and> last spline = 1
       \<and> min_gap (radius_b64 - (2 * real (length us) + 7) / 2 ^ 53) spline"
  using createPoisson_b64_shape [OF assms(1) _ assms(3)] assms(2) by simp

theorem createPoisson_b64_spacing_witness:
  "createPoisson_b64 [1/8, 1/4, 3/8, 1/4, 1/2] = Some [0, 3602879701896397 / 18014398509481984, 788129934789837 / 2251799813685248, 4053239664633447 / 9007199254740992, 5854679515581645 / 9007199254740992, 3715469692580659 / 4503599627370496, 1]
   \<and> sorted [0::real, 3602879701896397 / 18014398509481984, 788129934789837 / 2251799813685248, 4053239664633447 / 9007199254740992, 5854679515581645 / 9007199254740992, 3715469692580659 / 4503599627370496, 1]
   \<and> min_gap (radius_b64 - 17 / 2 ^ 53) [0, 3602879701896397 / 18014398509481984, 788129934789837 / 2251799813685248, 4053239664633447 / 9007199254740992, 5854679515581645 / 9007199254740992, 3715469692580659 / 4503599627370496, 1]"
proof -
  have e1: "fl (3602879701896397 / 18014398509481984)
      = 3602879701896397 / 18014398509481984"
    by (simp add: fl_eval)
  have e2: "fl (32425917317067571 / 36028797018963968)
      = 8106479329266893 / 9007199254740992"
    by (simp add: fl_eval)
  have e3: "fl (14411518807585587 / 18014398509481984)
      = 3602879701896397 / 4503599627370496"
    by (simp add: fl_eval)
  have e4: "fl (3602879701896397 / 36028797018963968)
      = 3602879701896397 / 36028797018963968"
    by (simp add: fl_eval)
  have e5: "fl (28823037615171175 / 36028797018963968)
      = 3602879701896397 / 4503599627370496"
    by (simp add: fl_eval)
  have e6: "fl (3602879701896397 / 4503599627370496)
      = 3602879701896397 / 4503599627370496"
    by (simp add: fl_eval)
  have e7: "fl (10808639105689191 / 36028797018963968)
      = 1351079888211149 / 4503599627370496"
    by (simp add: fl_eval)
  have e8: "fl (5404319552844595 / 9007199254740992)
      = 5404319552844595 / 9007199254740992"
    by (simp add: fl_eval)
  have e9: "fl (5404319552844595 / 36028797018963968)
      = 5404319552844595 / 36028797018963968"
    by (simp add: fl_eval)
  have e10: "fl (1351079888211149 / 4503599627370496)
      = 1351079888211149 / 4503599627370496"
    by (simp add: fl_eval)
  have e11: "fl (16212958658533787 / 36028797018963968)
      = 4053239664633447 / 9007199254740992"
    by (simp add: fl_eval)
  have e12: "fl (12610078956637391 / 36028797018963968)
      = 788129934789837 / 2251799813685248"
    by (simp add: fl_eval)
  have e13: "fl (19815838360430185 / 36028797018963968)
      = 2476979795053773 / 4503599627370496"
    by (simp add: fl_eval)
  have e14: "fl (225179981368525 / 4503599627370496)
      = 225179981368525 / 4503599627370496"
    by (simp add: fl_eval)
  have e15: "fl (3152519739159347 / 9007199254740992)
      = 3152519739159347 / 9007199254740992"
    by (simp add: fl_eval)
  have e16: "fl (3602879701896397 / 9007199254740992)
      = 3602879701896397 / 9007199254740992"
    by (simp add: fl_eval)
  have e17: "fl (10808639105689191 / 72057594037927936)
      = 1351079888211149 / 9007199254740992"
    by (simp add: fl_eval)
  have e18: "fl (1 / 2) = 1 / 2" by (simp add: fl_eval)
  have e19: "fl (5854679515581645 / 9007199254740992)
      = 5854679515581645 / 9007199254740992"
    by (simp add: fl_eval)
  have e20: "fl (19815838360430183 / 36028797018963968)
      = 2476979795053773 / 4503599627370496"
    by (simp add: fl_eval)
  have e21: "fl (27021597764222977 / 36028797018963968) = 3 / 4" by (simp add: fl_eval)
  have e22: "fl (1351079888211149 / 9007199254740992)
      = 1351079888211149 / 9007199254740992"
    by (simp add: fl_eval)
  have e23: "fl (1801439850948199 / 9007199254740992)
      = 1801439850948199 / 9007199254740992"
    by (simp add: fl_eval)
  have e24: "fl (1801439850948199 / 36028797018963968)
      = 1801439850948199 / 36028797018963968"
    by (simp add: fl_eval)
  have e25: "fl (9007199254740995 / 36028797018963968)
      = 2251799813685249 / 9007199254740992"
    by (simp add: fl_eval)
  have e26: "fl (16212958658533789 / 36028797018963968)
      = 4053239664633447 / 9007199254740992"
    by (simp add: fl_eval)
  have e27: "fl (1351079888211149 / 18014398509481984)
      = 1351079888211149 / 18014398509481984"
    by (simp add: fl_eval)
  have e28: "fl (3 / 4) = 3 / 4" by (simp add: fl_eval)
  have e29: "fl (14861878770322637 / 18014398509481984)
      = 3715469692580659 / 4503599627370496"
    by (simp add: fl_eval)
  have e30: "fl (26120877838748875 / 36028797018963968)
      = 6530219459687219 / 9007199254740992"
    by (simp add: fl_eval)
  have e31: "fl (33326637242541669 / 36028797018963968)
      = 8331659310635417 / 9007199254740992"
    by (simp add: fl_eval)
  have run: "createPoisson_b64 [1/8, 1/4, 3/8, 1/4, 1/2] = Some [0, 3602879701896397 / 18014398509481984, 788129934789837 / 2251799813685248, 4053239664633447 / 9007199254740992, 5854679515581645 / 9007199254740992, 3715469692580659 / 4503599627370496, 1]"
    by (simp add: createPoisson_b64_def radius2_b64_def radius_b64_value Let_def
      e1 e2 e3 e4 e5 e6 e7 e8 e9 e10 e11 e12 e13 e14 e15 e16 e17 e18 e19 e20 e21 e22 e23 e24 e25 e26 e27 e28 e29 e30 e31)
  have "\<forall>u \<in> set [1/8, 1/4, 3/8, 1/4, 1/2]. 0 \<le> u \<and> u < (1::real)" by simp
  from createPoisson_b64_spacing [OF run this] run show ?thesis by simp
qed

section \<open>Properties of the background confetti\<close>

lemma Confetto_update_fields [simp]:
  "snd (Confetto_update h d c) = (cf_y c + cf_dy c * d > h + deviation)"
  "cf_y (fst (Confetto_update h d c)) = cf_y c + cf_dy c * d"
  "cf_dy (fst (Confetto_update h d c)) = cf_dy c"
  "cf_frame (fst (Confetto_update h d c)) = cf_frame c + d"
  "splineX (fst (Confetto_update h d c)) = splineX c"
  "splineY (fst (Confetto_update h d c)) = splineY c"
  by (simp_all add: Confetto_update_def Let_def)

lemma update_confetti_Nil [simp]: "update_confetti h d [] = []"
  by (simp add: update_confetti_def)

lemma update_confetti_Cons:
  "update_confetti h d (c # cs) =
     (if snd (Confetto_update h d c) then update_confetti h d cs
      else fst (Confetto_update h d c) # update_confetti h d cs)"
  by (simp add: update_confetti_def case_prod_unfold del: Confetto_update_fields)

lemma set_update_confetti:
  "set (update_confetti h d cs) =
     {fst (Confetto_update h d c) | c. c \<in> set cs \<and> \<not> snd (Confetto_update h d c)}"
  by (induction cs) (auto simp: update_confetti_Cons simp del: Confetto_update_fields)

lemma loop_timer [simp]: "sys_timer (loop t hgt h s) = sys_timer s"
  by (simp add: loop_def Let_def)

lemma loop_fields:
  "sys_confetti (loop t hgt h s)
     = update_confetti hgt (if truthy_num (sys_prev s) then t - the (sys_prev s) else 0) (sys_confetti s)"
  "sys_prev (loop t hgt h s) = Some t"
  "sys_loop (loop t hgt h s) = (truthy_handle (sys_timer s) \<or> sys_confetti (loop t hgt h s) \<noteq> [])"
  "sys_attached (loop t hgt h s) = (sys_attached s \<and> sys_loop (loop t hgt h s))"
  "sys_frame (loop t hgt h s) = (if sys_loop (loop t hgt h s) then Some h else None)"
  by (auto simp: loop_def Let_def)

lemma addConfetto_fields [simp]:
  "sys_timer (addConfetto c h s) = Some h"
  "sys_confetti (addConfetto c h s) = sys_confetti s @ [c]"
  "sys_attached (addConfetto c h s) = sys_attached s"
  "sys_loop (addConfetto c h s) = sys_loop s"
  "sys_prev (addConfetto c h s) = sys_prev s"
  "sys_frame (addConfetto c h s) = sys_frame s"
  by (simp_all add: addConfetto_def)

lemma step_keeps_running:
  assumes "truthy_handle (sys_timer s)" "sys_attached s" "sys_loop s" "spawn_handle_ok e"
  shows "truthy_handle (sys_timer (step e s)) \<and> sys_attached (step e s) \<and> sys_loop (step e s)"
proof (cases e)
  case (Spawn c h)
  with assms show ?thesis by (simp add: truthy_handle_def)
next
  case (Frame t hgt h)
  with assms show ?thesis by (simp add: loop_fields)
qed

lemma run_keeps_running:
  "truthy_handle (sys_timer s) \<Longrightarrow> sys_attached s \<Longrightarrow> sys_loop s \<Longrightarrow>
   \<forall>e \<in> set es. spawn_handle_ok e \<Longrightarrow>
   truthy_handle (sys_timer (run es s)) \<and> sys_attached (run es s) \<and> sys_loop (run es s)"
proof (induction es arbitrary: s)
  case Nil
  then show ?case by simp
next
  case (Cons e es)
  from Cons.prems have "spawn_handle_ok e" by simp
  from step_keeps_running [OF Cons.prems(1-3) this] Cons.IH [of "step e s"] Cons.prems(4)
  show ?case by simp
qed

text \<open>
  C8: every run of \<^verbatim>\<open>addConfetto\<close> stores the handle that \<^verbatim>\<open>setTimeout\<close> returned, a
  positive integer, in \<^verbatim>\<open>timer\<close>, and \<^verbatim>\<open>loop\<close> never writes \<^verbatim>\<open>timer\<close>. So after \<^verbatim>\<open>poof\<close>,
  whatever spawns and frames follow, \<^verbatim>\<open>timer\<close> is truthy, every run of \<^verbatim>\<open>loop\<close>
  requests the next frame, and the container stays attached: the cleanup is never
  reached.
\<close>

theorem spawner_never_stops:
  assumes "0 < h0" "\<forall>e \<in> set es. spawn_handle_ok e"
  shows "truthy_handle (sys_timer (addConfetto c h0 s))
       \<and> sys_timer (loop t hgt h s) = sys_timer s
       \<and> truthy_handle (sys_timer (run es (poof c h0 initialSystem)))
       \<and> sys_loop (run es (poof c h0 initialSystem))
       \<and> sys_attached (run es (poof c h0 initialSystem))
       \<and> sys_loop (step (Frame t hgt h) (run es (poof c h0 initialSystem)))
       \<and> sys_attached (step (Frame t hgt h) (run es (poof c h0 initialSystem)))"
proof -
  let ?s0 = "poof c h0 initialSystem"
  have s0: "truthy_handle (sys_timer ?s0)" "sys_attached ?s0" "sys_loop ?s0"
    using assms(1) by (simp_all add: poof_def initialSystem_def truthy_handle_def)
  note r = run_keeps_running [OF s0 assms(2)]
  have f: "spawn_handle_ok (Frame t hgt h)" by simp
  from r have r': "truthy_handle (sys_timer (run es ?s0))" "sys_attached (run es ?s0)"
    "sys_loop (run es ?s0)" by simp_all
  note st = step_keeps_running [OF r' f]
  from assms(1) r st show ?thesis by (simp add: truthy_handle_def)
qed

lemma poof_initialSystem:
  "poof c h initialSystem = \<lparr> sys_timer = Some h, sys_frame = None, sys_confetti = [c],
     sys_prev = None, sys_attached = True, sys_loop = True \<rparr>"
  by (simp add: poof_def initialSystem_def truthy_handle_def addConfetto_def)

theorem spawner_never_stops_witness:
  "sys_confetti (run [Frame 1000 100 1, Spawn confetto2 2, Frame 3000 100 2, Frame 3016 100 3]
      (poof confetto1 1 initialSystem)) = []
   \<and> sys_loop (run [Frame 1000 100 1, Spawn confetto2 2, Frame 3000 100 2, Frame 3016 100 3]
      (poof confetto1 1 initialSystem))
   \<and> sys_attached (run [Frame 1000 100 1, Spawn confetto2 2, Frame 3000 100 2, Frame 3016 100 3]
      (poof confetto1 1 initialSystem))"
  using spawner_never_stops [of 1
      "[Frame 1000 100 1, Spawn confetto2 2, Frame 3000 100 2, Frame 3016 100 3]"
      confetto1 initialSystem 0 0 0]
  by (simp add: poof_initialSystem loop_def Let_def addConfetto_def update_confetti_Cons
        truthy_num_def truthy_handle_def deviation_def)

lemma run_stopped: "\<not> sys_loop s \<Longrightarrow> run (frame_events fs) s = s"
  by (induction fs arbitrary: s) (simp_all add: frame_events_def case_prod_unfold)

lemma run_frames_done:
  "\<not> truthy_handle (sys_timer s) \<Longrightarrow> sys_loop s \<Longrightarrow> fs \<noteq> [] \<Longrightarrow>
   \<forall>c \<in> set (sys_confetti s). \<not> survives (frame_inputs (sys_prev s) fs) c \<Longrightarrow>
   sys_confetti (run (frame_events fs) s) = [] \<and> \<not> sys_attached (run (frame_events fs) s)
   \<and> \<not> sys_loop (run (frame_events fs) s) \<and> sys_frame (run (frame_events fs) s) = None"
proof (induction fs arbitrary: s)
  case Nil
  then show ?case by simp
next
  case (Cons f fs)
  obtain t hgt h where f: "f = (t, hgt, h)" by (cases f)
  define d where "d = (if truthy_num (sys_prev s) then t - the (sys_prev s) else 0)"
  define s1 where "s1 = loop t hgt h s"
  have run: "run (frame_events (f # fs)) s = run (frame_events fs) s1"
    using Cons.prems(2) by (simp add: frame_events_def f s1_def)
  have ins: "frame_inputs (sys_prev s) (f # fs) = (hgt, d) # frame_inputs (Some t) fs"
    by (simp add: f d_def)
  have cs1: "sys_confetti s1 = update_confetti hgt d (sys_confetti s)"
    and pr1: "sys_prev s1 = Some t"
    and tm1: "\<not> truthy_handle (sys_timer s1)"
    and lp1: "sys_loop s1 = (sys_confetti s1 \<noteq> [])"
    and at1: "sys_attached s1 = (sys_attached s \<and> sys_loop s1)"
    and fr1: "sys_frame s1 = (if sys_loop s1 then Some h else None)"
    using Cons.prems(1) by (simp_all add: s1_def d_def loop_fields)
  have rest: "\<forall>c \<in> set (sys_confetti s1). \<not> survives (frame_inputs (sys_prev s1) fs) c"
  proof
    fix c' assume "c' \<in> set (sys_confetti s1)"
    then obtain c where c: "c \<in> set (sys_confetti s)" "\<not> snd (Confetto_update hgt d c)"
      "c' = fst (Confetto_update hgt d c)"
      unfolding cs1 set_update_confetti by blast
    from Cons.prems(4) c(1) have "\<not> survives ((hgt, d) # frame_inputs (Some t) fs) c"
      unfolding ins by blast
    with c(2,3) show "\<not> survives (frame_inputs (sys_prev s1) fs) c'"
      by (simp add: pr1 del: Confetto_update_fields)
  qed
  show ?case
  proof (cases "sys_confetti s1 = []")
    case True
    with lp1 have "\<not> sys_loop s1" by simp
    with True at1 fr1 show ?thesis unfolding run by (simp add: run_stopped)
  next
    case False
    then obtain c' where c': "c' \<in> set (sys_confetti s1)" by (cases "sys_confetti s1") auto
    with rest have "\<not> survives (frame_inputs (sys_prev s1) fs) c'" by blast
    then have "fs \<noteq> []" by auto
    moreover from False lp1 have "sys_loop s1" by simp
    ultimately show ?thesis unfolding run using Cons.IH [OF tm1 _ _ rest] by simp
  qed
qed





lemma Confetto_new_returns:
  assumes "\<forall>u \<in> set (u_poisson e). 0 \<le> u \<and> u < 1" "17 \<le> length (u_poisson e)"
  shows "\<exists>c. Confetto_new e = Some c"
proof -
  from createPoisson_returns [OF assms] obtain sx where "createPoisson (u_poisson e) = Some sx"
    by blast
  then show ?thesis by (simp add: Confetto_new_def Let_def)
qed

lemma Confetto_updates_splines [simp]:
  "splineX (Confetto_updates calls c) = splineX c"
  "splineY (Confetto_updates calls c) = splineY c"
  by (induction calls c rule: Confetto_updates.induct) simp_all






end
